theory Spec2Isabelle
  imports Main "HOL-Library.Sublist"
begin

section \<open>Strings as Python sees them\<close>

text \<open>
  Text is a list of characters, a character being a code point below 256. The character
  classes below are Python's classes of these code points.
\<close>

definition py_isspace :: "char \<Rightarrow> bool" where
  \<comment> \<open>\<open>str.isspace\<close>, which is also what \<open>\\s\<close> and \<open>str.strip()\<close> use:
      TAB..CR, FS..US, SPACE, NEL (U+0085) and NBSP (U+00A0)\<close>
  "py_isspace c =
     (let n = of_char c :: nat in (9 \<le> n \<and> n \<le> 13) \<or> (28 \<le> n \<and> n \<le> 32) \<or> n = 133 \<or> n = 160)"

definition is_upper :: "char \<Rightarrow> bool" where
  \<comment> \<open>\<open>A-Z\<close>\<close>
  "is_upper c = (let n = of_char c :: nat in 65 \<le> n \<and> n \<le> 90)"

definition is_lower :: "char \<Rightarrow> bool" where
  \<comment> \<open>\<open>a-z\<close>\<close>
  "is_lower c = (let n = of_char c :: nat in 97 \<le> n \<and> n \<le> 122)"

definition is_digit :: "char \<Rightarrow> bool" where
  \<comment> \<open>\<open>0-9\<close>\<close>
  "is_digit c = (let n = of_char c :: nat in 48 \<le> n \<and> n \<le> 57)"

definition is_word :: "char \<Rightarrow> bool" where
  \<comment> \<open>the regular expression class \<open>\\w\<close> of a text pattern: alphanumeric or underscore\<close>
  "is_word c =
     (let n = of_char c :: nat in
      is_upper c \<or> is_lower c \<or> is_digit c \<or> c = CHR ''_''
      \<or> n = 0xAA \<or> n = 0xB2 \<or> n = 0xB3 \<or> n = 0xB5 \<or> n = 0xB9 \<or> n = 0xBA
      \<or> (0xBC \<le> n \<and> n \<le> 0xBE) \<or> (0xC0 \<le> n \<and> n \<le> 0xD6) \<or> (0xD8 \<le> n \<and> n \<le> 0xF6) \<or> 0xF8 \<le> n)"

definition strip :: "string \<Rightarrow> string" where
  \<comment> \<open>\<open>str.strip()\<close>\<close>
  "strip s = rev (dropWhile py_isspace (rev (dropWhile py_isspace s)))"

definition to_lower :: "char \<Rightarrow> char" where
  "to_lower c =
     (let n = of_char c :: nat in
      if is_upper c \<or> (0xC0 \<le> n \<and> n \<le> 0xD6) \<or> (0xD8 \<le> n \<and> n \<le> 0xDE) then char_of (n + 32) else c)"

definition lower :: "string \<Rightarrow> string" where
  \<comment> \<open>\<open>str.lower()\<close>\<close>
  "lower s = map to_lower s"

fun contains :: "string \<Rightarrow> string \<Rightarrow> bool" where
  \<comment> \<open>\<open>needle in hay\<close>\<close>
  "contains needle [] = (needle = [])"
| "contains needle (c # cs) = (prefix needle (c # cs) \<or> contains needle cs)"

fun join :: "string \<Rightarrow> string list \<Rightarrow> string" where
  \<comment> \<open>\<open>sep.join(xs)\<close>\<close>
  "join sep [] = []"
| "join sep [x] = x"
| "join sep (x # y # ys) = x @ sep @ join sep (y # ys)"

section \<open>Codec utilities\<close>

type_synonym bytes = "nat list"

definition b64_index :: "char \<Rightarrow> nat option" where
  \<comment> \<open>the decoding table of the standard alphabet\<close>
  "b64_index c =
     (let n = of_char c :: nat in
      if is_upper c then Some (n - 65)
      else if is_lower c then Some (n - 97 + 26)
      else if is_digit c then Some (n - 48 + 52)
      else if c = CHR ''+'' then Some 62
      else if c = CHR ''/'' then Some 63
      else None)"

text \<open>
  \<open>base64.b64decode(s)\<close> with its default \<open>validate=False\<close> is the non-strict loop of
  \<open>binascii.a2b_base64\<close>: characters outside the alphabet are skipped, a pad that completes
  a quad ends the input, and data left in an incomplete quad raises \<open>binascii.Error\<close>
  (\<open>None\<close> here). The arguments after the input are \<open>quad_pos\<close>, \<open>leftchar\<close>, \<open>pads\<close> and
  the bytes written so far.
\<close>

fun a2b_base64 :: "string \<Rightarrow> nat \<Rightarrow> nat \<Rightarrow> nat \<Rightarrow> bytes \<Rightarrow> bytes option" where
  "a2b_base64 [] quad_pos leftchar pads out = (if quad_pos \<noteq> 0 then None else Some out)"
| "a2b_base64 (c # cs) quad_pos leftchar pads out =
     (if c = CHR ''='' then
        (if quad_pos \<ge> 2 \<and> quad_pos + (pads + 1) \<ge> 4 then Some out
         else a2b_base64 cs quad_pos leftchar (if quad_pos \<ge> 2 then pads + 1 else pads) out)
      else
        (case b64_index c of
           None \<Rightarrow> a2b_base64 cs quad_pos leftchar pads out
         | Some this_ch \<Rightarrow>
             (if quad_pos = 0 then a2b_base64 cs 1 this_ch 0 out
              else if quad_pos = 1 then
                a2b_base64 cs 2 (this_ch mod 16) 0 (out @ [(leftchar * 4 + this_ch div 16) mod 256])
              else if quad_pos = 2 then
                a2b_base64 cs 3 (this_ch mod 4) 0 (out @ [(leftchar * 16 + this_ch div 4) mod 256])
              else
                a2b_base64 cs 0 0 0 (out @ [(leftchar * 64 + this_ch) mod 256]))))"

definition b64decode :: "string \<Rightarrow> bytes option" where
  "b64decode s = a2b_base64 s 0 0 0 []"

definition b64_class :: "char \<Rightarrow> bool" where
  \<comment> \<open>the characters that \<open>[^A-Za-z0-9+/=]\<close> does not match\<close>
  "b64_class c = (is_upper c \<or> is_lower c \<or> is_digit c \<or> c = CHR ''+'' \<or> c = CHR ''/'' \<or> c = CHR ''='')"

definition safe_b64decode :: "string \<Rightarrow> bytes option" where
  "safe_b64decode data0 =
     (let data1 = strip data0;
          data2 = filter b64_class data1;
          missing_padding = length data2 mod 4;
          data3 = (if missing_padding \<noteq> 0 then data2 @ replicate (4 - missing_padding) CHR ''='' else data2)
      in b64decode data3)"

text \<open>
  The canonical form of a payload, in the words of the specification: the payload padded
  with \<open>=\<close> to a multiple of four characters.
\<close>

definition canonical_padded :: "string \<Rightarrow> string" where
  "canonical_padded p = p @ replicate ((4 - length p mod 4) mod 4) CHR ''=''"

section \<open>Embedded images of the stylesheet\<close>

text \<open>
  \<open>hash\<close> is Python's built-in string hash, salted per process: a parameter. The file
  system is the map from the paths that exist to their contents; writes succeed.
\<close>

fun digits :: "nat \<Rightarrow> string" where
  "digits n = (if n < 10 then [char_of (48 + n)] else digits (n div 10) @ [char_of (48 + n mod 10)])"

declare digits.simps [simp del]

definition str_int :: "int \<Rightarrow> string" where
  "str_int i = (if i < 0 then CHR ''-'' # digits (nat (- i)) else digits (nat i))"

definition path_join :: "string \<Rightarrow> string \<Rightarrow> string" where
  "path_join a b =
     (if prefix ''/'' b then b
      else if a = [] \<or> suffix ''/'' a then a @ b
      else a @ ''/'' @ b)"

definition IMAGES_DIR :: "string \<Rightarrow> string" where
  "IMAGES_DIR out_dir = path_join out_dir ''images''"

type_synonym files = "string \<rightharpoonup> bytes"

definition save_file :: "files \<Rightarrow> string \<Rightarrow> bytes \<Rightarrow> files" where
  "save_file fs path content = fs(path \<mapsto> content)"

text \<open>
  \<open>match_css_url s\<close> is the match of \<open>url\\((data:image/[\\w+]+;base64,[^)]+)\\)\<close> at the
  start of \<open>s\<close>: group 1 and the text after the match. Both repetitions are followed by a
  character they exclude, so the longest run is the only candidate.
\<close>

definition ext_char :: "char \<Rightarrow> bool" where
  "ext_char c = (is_word c \<or> c = CHR ''+'')"

definition not_rparen :: "char \<Rightarrow> bool" where
  "not_rparen c = (c \<noteq> CHR '')'')"

definition match_css_url :: "string \<Rightarrow> (string \<times> string) option" where
  "match_css_url s =
     (if prefix ''url(data:image/'' s then
        (let r1 = drop 15 s; ext = takeWhile ext_char r1; r2 = dropWhile ext_char r1 in
         if ext \<noteq> [] \<and> prefix '';base64,'' r2 then
           (let r3 = drop 8 r2; payload = takeWhile not_rparen r3; r4 = dropWhile not_rparen r3 in
            if payload \<noteq> [] \<and> r4 \<noteq> [] then Some (''data:image/'' @ ext @ '';base64,'' @ payload, tl r4)
            else None)
         else None)
      else None)"

text \<open>
  \<open>match_data_url\<close> is \<open>re.match\<close> of \<open>data:image/(\\w+);base64,(.+)\<close>: the groups. The dot
  stops at a newline.
\<close>

definition match_data_url :: "string \<Rightarrow> (string \<times> string) option" where
  "match_data_url s =
     (if prefix ''data:image/'' s then
        (let r1 = drop 11 s; ext = takeWhile is_word r1; r2 = dropWhile is_word r1 in
         if ext \<noteq> [] \<and> prefix '';base64,'' r2 then
           (let b64_data = takeWhile (\<lambda>c. c \<noteq> CHR 0x0A) (drop 8 r2) in
            if b64_data \<noteq> [] then Some (ext, b64_data) else None)
         else None)
      else None)"

definition dquote :: string where
  "dquote = [CHR 0x22]"

definition repl :: "(string \<Rightarrow> int) \<Rightarrow> string \<Rightarrow> files \<Rightarrow> string \<Rightarrow> string \<times> files" where
  "repl hash out_dir fs data_url =
     (case match_data_url data_url of
        None \<Rightarrow> (''url('' @ data_url @ '')'', fs)
      | Some (ext, b64_data) \<Rightarrow>
          (let filename = ''css_img_'' @ str_int (hash b64_data) @ ''.'' @ ext;
               path = path_join (IMAGES_DIR out_dir) filename;
               fs' = (if fs path = None then
                        (case safe_b64decode b64_data of
                           None \<Rightarrow> fs
                         | Some img_bytes \<Rightarrow> if img_bytes \<noteq> [] then save_file fs path img_bytes else fs)
                      else fs)
           in (''url('' @ dquote @ ''../images/'' @ filename @ dquote @ '')'', fs')))"

function css_sub :: "(string \<Rightarrow> int) \<Rightarrow> string \<Rightarrow> files \<Rightarrow> string \<Rightarrow> string \<times> files" where
  "css_sub hash out_dir fs [] = ([], fs)"
| "css_sub hash out_dir fs (c # cs) =
     (case match_css_url (c # cs) of
        None \<Rightarrow> (let (out, fs') = css_sub hash out_dir fs cs in (c # out, fs'))
      | Some (data_url, rest) \<Rightarrow>
          (let (r, fs1) = repl hash out_dir fs data_url;
               (out, fs2) = css_sub hash out_dir fs1 rest
           in (r @ out, fs2)))"
  by pat_completeness auto
termination
proof (relation "measure (\<lambda>(hash, out_dir, fs, s). length s)")
  show "wf (measure (\<lambda>(hash, out_dir, fs, s). length s))" by simp
next
  fix hash :: "string \<Rightarrow> int" and out_dir :: string and fs :: files and c :: char and cs :: string
  show "((hash, out_dir, fs, cs), hash, out_dir, fs, c # cs) \<in> measure (\<lambda>(hash, out_dir, fs, s). length s)"
    by simp
next
  fix hash :: "string \<Rightarrow> int" and out_dir :: string and fs fs1 :: files and c :: char
    and cs data_url rest r :: string and x2 :: "string \<times> string" and x :: "string \<times> files"
  assume m: "match_css_url (c # cs) = Some x2" "(data_url, rest) = x2"
  let ?s = "c # cs"
  from m have r4: "rest = tl (dropWhile not_rparen (drop 8 (dropWhile ext_char (drop 15 ?s))))"
    and ne: "dropWhile not_rparen (drop 8 (dropWhile ext_char (drop 15 ?s))) \<noteq> []"
    by (auto simp: match_css_url_def Let_def split: if_splits)
  have "length (dropWhile not_rparen (drop 8 (dropWhile ext_char (drop 15 ?s))))
      \<le> length (drop 8 (dropWhile ext_char (drop 15 ?s)))"
    by (rule length_dropWhile_le)
  also have "\<dots> \<le> length (dropWhile ext_char (drop 15 ?s))" by simp
  also have "\<dots> \<le> length (drop 15 ?s)" by (rule length_dropWhile_le)
  also have "\<dots> \<le> length ?s" by simp
  finally have "length rest < length ?s"
    using ne r4 by (cases "dropWhile not_rparen (drop 8 (dropWhile ext_char (drop 15 ?s)))") auto
  then show "((hash, out_dir, fs1, rest), hash, out_dir, fs, c # cs) \<in> measure (\<lambda>(hash, out_dir, fs, s). length s)"
    by simp
qed

definition extract_css_base64_images :: "(string \<Rightarrow> int) \<Rightarrow> string \<Rightarrow> files \<Rightarrow> string \<Rightarrow> string \<times> files" where
  "extract_css_base64_images hash out_dir fs css = css_sub hash out_dir fs css"

section \<open>The document tree\<close>

text \<open>
  A parsed document is the list of the nodes below the \<open>BeautifulSoup\<close> object. An element
  carries its name, its \<open>class\<close> attribute (the parser splits it into a list; \<open>None\<close> when
  absent), its other attributes, which are plain strings, and its children.
\<close>

type_synonym attrs = "(string \<times> string) list"

datatype node =
    Element string "string list option" attrs "node list"
  | Text string
  | Comment string

type_synonym soup = "node list"

fun is_element :: "node \<Rightarrow> bool" where
  "is_element (Element _ _ _ _) = True"
| "is_element _ = False"

fun name_of :: "node \<Rightarrow> string" where
  "name_of (Element n _ _ _) = n"
| "name_of _ = []"

fun get :: "node \<Rightarrow> string \<Rightarrow> string option" where
  "get (Element _ _ a _) key = map_of a key"
| "get _ key = None"

fun truthy :: "string option \<Rightarrow> bool" where
  "truthy None = False"
| "truthy (Some v) = (v \<noteq> [])"

text \<open>
  \<open>find_all\<close> lists the elements of a subtree in document order. The program always takes
  the list first and edits the tree while walking it. Where the edit of one element cannot
  change what the loop does to the later ones (a comment, script, meta or style element
  removed with its subtree, an element renamed or given a class), the loop is written as the
  recursion over the tree that treats an element before its children. The empty-tag loop,
  whose test looks below the tag, is modelled as the loop over the list.
\<close>

fun find_all :: "node \<Rightarrow> node list" where
  "find_all (Element n c a ch) = Element n c a ch # concat (map find_all ch)"
| "find_all _ = []"

definition descendants_tags :: "node list \<Rightarrow> node list" where
  "descendants_tags ch = concat (map find_all ch)"

fun text_of :: "node \<Rightarrow> string" where
  "text_of (Element _ _ _ ch) = concat (map text_of ch)"
| "text_of (Text s) = s"
| "text_of (Comment s) = []"

section \<open>DOM normalizer\<close>

definition structural_markers :: "string list" where
  "structural_markers = [''HEADER'', ''MAIN'', ''FOOTER'', ''SECTION'']"

definition is_structural :: "string \<Rightarrow> bool" where
  "is_structural c = list_ex (\<lambda>marker. contains marker c) structural_markers"

fun remove_comments :: "node \<Rightarrow> node list" where
  "remove_comments (Element n c a ch) = [Element n c a (concat (map remove_comments ch))]"
| "remove_comments (Text s) = [Text s]"
| "remove_comments (Comment s) = (if \<not> is_structural s then [] else [Comment s])"

text \<open>
  \<open>not tag.text.strip() and not tag.find_all()\<close>: \<open>tag.text\<close> joins the text nodes below the
  tag, comments left out. \<open>remove_empty_tags\<close> is the recursion that tests each tag on
  its subtree as it was at the start; \<open>empty_tag_loop\<close> below is the loop itself, and the two
  are proved equal.
\<close>

definition is_empty_tag :: "node \<Rightarrow> bool" where
  "is_empty_tag tag =
     (case tag of
        Element n c a ch \<Rightarrow> strip (text_of tag) = [] \<and> descendants_tags ch = []
      | _ \<Rightarrow> False)"

fun remove_empty_tags :: "node \<Rightarrow> node list" where
  "remove_empty_tags (Element n c a ch) =
     (if n \<in> set [''div'', ''span'', ''p''] \<and> is_empty_tag (Element n c a ch) then []
      else [Element n c a (concat (map remove_empty_tags ch))])"
| "remove_empty_tags x = [x]"

text \<open>
  The loop as the program runs it. \<open>find_all\<close> hands out references to the tags, here the
  paths to them in the tree the loop starts with; \<open>decompose\<close> empties the place of a tag,
  so that the paths to the other tags stay valid, and the emptied places are dropped at the
  end. The loop tests every listed tag on the tree as it is at that moment.
\<close>

datatype mnode =
    MElement string "string list option" attrs "mnode option list"
  | MText string
  | MComment string

type_synonym path = "nat list"

fun embed :: "node \<Rightarrow> mnode" where
  "embed (Element n c a ch) = MElement n c a (map (\<lambda>x. Some (embed x)) ch)"
| "embed (Text s) = MText s"
| "embed (Comment s) = MComment s"

fun erase :: "mnode \<Rightarrow> node" where
  "erase (MElement n c a ch) = Element n c a (concat (map (\<lambda>s. case s of None \<Rightarrow> [] | Some m \<Rightarrow> [erase m]) ch))"
| "erase (MText s) = Text s"
| "erase (MComment s) = Comment s"

definition erase_all :: "mnode option list \<Rightarrow> soup" where
  "erase_all ms = concat (map (\<lambda>s. case s of None \<Rightarrow> [] | Some m \<Rightarrow> [erase m]) ms)"

fun at :: "mnode option list \<Rightarrow> path \<Rightarrow> mnode option" where
  "at ms [] = None"
| "at ms [i] = (if i < length ms then ms ! i else None)"
| "at ms (i # j # p) =
     (if i < length ms then (case ms ! i of Some (MElement n c a ch) \<Rightarrow> at ch (j # p) | _ \<Rightarrow> None) else None)"

fun decompose :: "mnode option list \<Rightarrow> path \<Rightarrow> mnode option list" where
  "decompose ms [] = ms"
| "decompose ms [i] = ms[i := None]"
| "decompose ms (i # j # p) =
     (if i < length ms then
        (case ms ! i of Some (MElement n c a ch) \<Rightarrow> ms[i := Some (MElement n c a (decompose ch (j # p)))] | _ \<Rightarrow> ms)
      else ms)"

fun tag_paths :: "string list \<Rightarrow> nat \<Rightarrow> mnode option list \<Rightarrow> path list" where
  "tag_paths names i [] = []"
| "tag_paths names i (None # ms) = tag_paths names (Suc i) ms"
| "tag_paths names i (Some (MElement n c a ch) # ms) =
     (if n \<in> set names then [[i]] else []) @ map (\<lambda>p. i # p) (tag_paths names 0 ch) @ tag_paths names (Suc i) ms"
| "tag_paths names i (Some m # ms) = tag_paths names (Suc i) ms"

text \<open>
  \<open>tag_paths names i ms\<close> lists, in document order, the paths to the tags with one of the
  \<open>names\<close>, for the places \<open>ms\<close> starting at index \<open>i\<close>.
\<close>

definition loop_body :: "path \<Rightarrow> mnode option list \<Rightarrow> mnode option list" where
  "loop_body tag ms =
     (case at ms tag of
        None \<Rightarrow> ms
      | Some t \<Rightarrow> if is_empty_tag (erase t) then decompose ms tag else ms)"

definition empty_tag_loop :: "soup \<Rightarrow> soup" where
  "empty_tag_loop soup =
     (let ms = map (\<lambda>x. Some (embed x)) soup
      in erase_all (fold loop_body (tag_paths [''div'', ''span'', ''p''] 0 ms) ms))"

fun remove_inline_scripts :: "node \<Rightarrow> node list" where
  "remove_inline_scripts (Element n c a ch) =
     (if n = ''script'' \<and> \<not> truthy (map_of a ''src'') then []
      else [Element n c a (concat (map remove_inline_scripts ch))])"
| "remove_inline_scripts x = [x]"

definition keep_meta :: "attrs \<Rightarrow> bool" where
  "keep_meta a =
     (if \<not> truthy (map_of a ''charset'') \<and> \<not> (map_of a ''name'' \<in> set [Some ''viewport'', Some ''description''])
      then (case map_of a ''property'' of
              None \<Rightarrow> False
            | Some p \<Rightarrow> p \<noteq> [] \<and> prefix ''og:'' p)
      else True)"

fun remove_meta :: "node \<Rightarrow> node list" where
  "remove_meta (Element n c a ch) =
     (if n = ''meta'' \<and> \<not> keep_meta a then []
      else [Element n c a (concat (map remove_meta ch))])"
| "remove_meta x = [x]"

fun normalize_tags :: "node \<Rightarrow> node" where
  "normalize_tags (Element n c a ch) =
     Element (if n = ''b'' then ''strong'' else if n = ''i'' then ''em'' else n) c a (map normalize_tags ch)"
| "normalize_tags x = x"

definition clean_html :: "soup \<Rightarrow> soup" where
  "clean_html soup =
     (let s1 = concat (map remove_comments soup);
          s2 = empty_tag_loop s1;
          s3 = concat (map remove_inline_scripts s2);
          s4 = concat (map remove_meta s3)
      in map normalize_tags s4)"

section \<open>Semantic classifier\<close>

definition any_keyword :: "string list \<Rightarrow> string \<Rightarrow> string \<Rightarrow> bool" where
  "any_keyword keywords classes div_id = list_ex (\<lambda>keyword. contains keyword classes \<or> contains keyword div_id) keywords"

definition semantic_name :: "string list option \<Rightarrow> attrs \<Rightarrow> string option" where
  "semantic_name c a =
     (let classes = lower (join '' '' (case c of None \<Rightarrow> [] | Some l \<Rightarrow> l));
          div_id = lower (case map_of a ''id'' of None \<Rightarrow> [] | Some v \<Rightarrow> v)
      in if any_keyword [''header'', ''top'', ''masthead''] classes div_id then Some ''header''
         else if any_keyword [''footer'', ''bottom''] classes div_id then Some ''footer''
         else if any_keyword [''main'', ''content'', ''primary''] classes div_id then Some ''main''
         else if any_keyword [''section'', ''block''] classes div_id then Some ''section''
         else if any_keyword [''nav'', ''menu'', ''navigation''] classes div_id then Some ''nav''
         else if any_keyword [''article'', ''post'', ''entry''] classes div_id then Some ''article''
         else None)"

fun convert_div :: "node \<Rightarrow> node" where
  "convert_div (Element n c a ch) =
     Element (if n = ''div'' then (case semantic_name c a of None \<Rightarrow> n | Some m \<Rightarrow> m) else n)
       c a (map convert_div ch)"
| "convert_div x = x"

definition semantic_conversion :: "soup \<Rightarrow> soup" where
  "semantic_conversion soup = map convert_div soup"

text \<open>
  The ordered keyword table of the specification, and its first matching row.
\<close>

definition keyword_table :: "(string list \<times> string) list" where
  "keyword_table =
     [([''header'', ''top'', ''masthead''], ''header''),
      ([''footer'', ''bottom''], ''footer''),
      ([''main'', ''content'', ''primary''], ''main''),
      ([''section'', ''block''], ''section''),
      ([''nav'', ''menu'', ''navigation''], ''nav''),
      ([''article'', ''post'', ''entry''], ''article'')]"

definition first_match :: "(string list \<times> string) list \<Rightarrow> string \<Rightarrow> string \<Rightarrow> string option" where
  "first_match table classes div_id =
     map_option snd (find (\<lambda>row. any_keyword (fst row) classes div_id) table)"

definition class_text :: "string list option \<Rightarrow> string" where
  "class_text c = lower (join '' '' (case c of None \<Rightarrow> [] | Some l \<Rightarrow> l))"

definition id_text :: "attrs \<Rightarrow> string" where
  "id_text a = lower (case map_of a ''id'' of None \<Rightarrow> [] | Some v \<Rightarrow> v)"

section \<open>Style extractor\<close>

text \<open>
  \<open>md5\<close> stands for \<open>hashlib.md5(s.encode()).hexdigest()\<close>, a parameter. \<open>string_of\<close> is
  \<open>Tag.string\<close>: the single string below a tag, if there is one.
\<close>

fun string_of :: "node \<Rightarrow> string option" where
  "string_of (Element n c a [child]) = string_of child"
| "string_of (Element n c a ch) = None"
| "string_of (Text s) = Some s"
| "string_of (Comment s) = Some s"

fun style_texts :: "node \<Rightarrow> string list" where
  "style_texts (Element n c a ch) =
     (if n = ''style'' then (if truthy (string_of (Element n c a ch)) then [the (string_of (Element n c a ch))] else [])
      else concat (map style_texts ch))"
| "style_texts x = []"

fun remove_style_tags :: "node \<Rightarrow> node list" where
  "remove_style_tags (Element n c a ch) =
     (if n = ''style'' then [] else [Element n c a (concat (map remove_style_tags ch))])"
| "remove_style_tags x = [x]"

definition inline_class :: "(string \<Rightarrow> string) \<Rightarrow> string \<Rightarrow> string" where
  "inline_class md5 style_content = ''inline_'' @ take 8 (md5 style_content)"

definition inline_rule :: "(string \<Rightarrow> string) \<Rightarrow> string \<Rightarrow> string" where
  "inline_rule md5 style_content = ''.'' @ inline_class md5 style_content @ '' {'' @ style_content @ ''}''"

text \<open>
  The second loop of \<open>extract_style_tags\<close> walks the elements that carry a \<open>style\<close>
  attribute. \<open>inline_loop\<close> is what it does to \<open>combined_css\<close> and \<open>seen_rules\<close>, and
  \<open>add_inline_class\<close> is what it does to the element at hand.
\<close>

fun inline_loop :: "(string \<Rightarrow> string) \<Rightarrow> node list \<Rightarrow> string list \<times> string set \<Rightarrow> string list \<times> string set" where
  "inline_loop md5 [] (combined_css, seen_rules) = (combined_css, seen_rules)"
| "inline_loop md5 (el # els) (combined_css, seen_rules) =
     (let style_content = strip (case get el ''style'' of None \<Rightarrow> [] | Some v \<Rightarrow> v) in
      if style_content = [] then inline_loop md5 els (combined_css, seen_rules)
      else
        (let rule = inline_rule md5 style_content in
         if rule \<notin> seen_rules then inline_loop md5 els (combined_css @ [rule], insert rule seen_rules)
         else inline_loop md5 els (combined_css, seen_rules)))"

fun add_inline_class :: "(string \<Rightarrow> string) \<Rightarrow> node \<Rightarrow> node" where
  "add_inline_class md5 (Element n c a ch) =
     (case map_of a ''style'' of
        None \<Rightarrow> Element n c a (map (add_inline_class md5) ch)
      | Some v \<Rightarrow>
          (let style_content = strip v in
           if style_content = [] then Element n c a (map (add_inline_class md5) ch)
           else Element n (Some ((case c of None \<Rightarrow> [] | Some l \<Rightarrow> l) @ [inline_class md5 style_content]))
                  (filter (\<lambda>kv. fst kv \<noteq> ''style'') a) (map (add_inline_class md5) ch)))"
| "add_inline_class md5 x = x"

definition has_style :: "node \<Rightarrow> bool" where
  "has_style el = (get el ''style'' \<noteq> None)"

definition style_blocks :: "soup \<Rightarrow> string list" where
  "style_blocks soup = concat (map style_texts soup)"

definition styled_elements :: "soup \<Rightarrow> node list" where
  "styled_elements soup = filter has_style (descendants_tags (concat (map remove_style_tags soup)))"

definition combined_css :: "(string \<Rightarrow> string) \<Rightarrow> soup \<Rightarrow> string list" where
  "combined_css md5 soup = fst (inline_loop md5 (styled_elements soup) (style_blocks soup, {}))"

definition extract_style_tags :: "(string \<Rightarrow> string) \<Rightarrow> soup \<Rightarrow> string \<times> soup" where
  "extract_style_tags md5 soup =
     (join [CHR 0x0A] (combined_css md5 soup),
      map (add_inline_class md5) (concat (map remove_style_tags soup)))"

section \<open>Pipeline stages\<close>

text \<open>
  The cleaning stage runs the normalizer, the classifier and the head rebuilder, in this
  order; the extraction stage starts with \<open>extract_style_tags\<close> on its result. The head
  rebuilder is a parameter here: what is proved holds whatever it does.
\<close>

definition CleaningStage :: "(soup \<Rightarrow> soup) \<Rightarrow> soup \<Rightarrow> soup" where
  "CleaningStage clean_head soup = clean_head (semantic_conversion (clean_html soup))"

section \<open>Notions used to state the properties of the tree passes\<close>

text \<open>
  The class list of a node, the label of an element (name, classes, attributes), and the
  test of the empty-tag loop. A context is the chain of ancestors of a position, each with
  the siblings before and after; \<open>plug\<close> puts a node at that position.
\<close>

text \<open>
  In the words of the specification: a node with no non-whitespace text and no element
  children. Its children are texts of whitespace only, and comments.
\<close>

fun blank_child :: "node \<Rightarrow> bool" where
  "blank_child (Element n c a ch) = False"
| "blank_child (Text s) = list_all py_isspace s"
| "blank_child (Comment s) = True"

fun no_text_no_children :: "node \<Rightarrow> bool" where
  "no_text_no_children (Element n c a ch) = list_all blank_child ch"
| "no_text_no_children x = False"

text \<open>
  The recursion \<open>remove_empty_tags\<close> on trees with emptied places, to compare the loop with.
\<close>

fun mprune :: "string list \<Rightarrow> mnode \<Rightarrow> mnode option" where
  "mprune names (MElement n c a ch) =
     (if n \<in> set names \<and> is_empty_tag (erase (MElement n c a ch)) then None
      else Some (MElement n c a (map (\<lambda>s. case s of None \<Rightarrow> None | Some m \<Rightarrow> mprune names m) ch)))"
| "mprune names m = Some m"

definition mprune_all :: "string list \<Rightarrow> mnode option list \<Rightarrow> mnode option list" where
  "mprune_all names ms = map (\<lambda>s. case s of None \<Rightarrow> None | Some m \<Rightarrow> mprune names m) ms"


fun label :: "node \<Rightarrow> string \<times> string list option \<times> attrs" where
  "label (Element n c a ch) = (n, c, a)"
| "label x = ([], None, [])"

definition removable :: "node \<Rightarrow> bool" where
  "removable tag = (name_of tag \<in> set [''div'', ''span'', ''p''] \<and> is_empty_tag tag)"

datatype frame = Frame string "string list option" attrs "node list" "node list"

fun wrap :: "frame \<Rightarrow> node \<Rightarrow> node" where
  "wrap (Frame n c a before after) x = Element n c a (before @ [x] @ after)"

fun plug :: "frame list \<Rightarrow> node \<Rightarrow> node" where
  "plug [] x = x"
| "plug (f # fs) x = wrap f (plug fs x)"

text \<open>
  Two nodes are twins when the comment pass leaves one element of each, with the same text,
  which the empty-tag pass treats alike.
\<close>

definition twin :: "node \<Rightarrow> node \<Rightarrow> bool" where
  "twin x x' = (\<exists>y y'. remove_comments x = [y] \<and> remove_comments x' = [y'] \<and> is_element y \<and> is_element y'
      \<and> text_of y = text_of y' \<and> remove_empty_tags y = remove_empty_tags y')"


text \<open>
  Examples. \<open>md5_color_red\<close> is the digest function at the one style the examples use: the MD5
  of \<open>color:red\<close>.
\<close>

definition md5_color_red :: "string \<Rightarrow> string" where
  "md5_color_red s = ''b64e6d9e05cfa5cb3fc50e8d9fca66d4''"



section \<open>Style optimizer\<close>

datatype rule_type = UNKNOWN_RULE | STYLE_RULE | CHARSET_RULE | IMPORT_RULE | MEDIA_RULE
  | FONT_FACE_RULE | PAGE_RULE | NAMESPACE_RULE | MARGIN_RULE | VARIABLES_RULE | COMMENT

type_synonym declarations = "(string \<times> string) list"

record css_rule =
  rtype :: rule_type
  selectorText :: string
  style :: declarations
  cssText :: string

text \<open>
  A declaration block is the list of its declarations, name and value. As in cssutils, the
  value that counts for a name is that of its last declaration (\<open>style_get\<close>), iterating a
  block yields that declaration for each name (\<open>effective\<close>), and \<open>style[name] = value\<close>
  overwrites it or appends a new declaration (\<open>setitem\<close>). Priorities are not modelled.
\<close>

definition style_get :: "declarations \<Rightarrow> string \<Rightarrow> string option" where
  "style_get st name = map_of (rev st) name"

fun effective :: "declarations \<Rightarrow> declarations" where
  "effective [] = []"
| "effective (p # ps) = (if fst p \<in> fst ` set ps then effective ps else p # effective ps)"

fun setitem :: "declarations \<Rightarrow> string \<Rightarrow> string \<Rightarrow> declarations" where
  "setitem [] name v = [(name, v)]"
| "setitem (p # ps) name v =
     (if fst p = name \<and> name \<notin> fst ` set ps then (name, v) # ps else p # setitem ps name v)"

definition merge_style :: "declarations \<Rightarrow> declarations \<Rightarrow> declarations" where
  "merge_style seen_style rule_style = fold (\<lambda>prop st. setitem st (fst prop) (snd prop)) (effective rule_style) seen_style"

text \<open>
  \<open>seen_rules\<close> is a dictionary, which keeps its keys in the order of insertion:
  \<open>dict_set\<close> is \<open>seen_rules[k] = r\<close>.
\<close>

fun dict_set :: "(string \<times> css_rule) list \<Rightarrow> string \<Rightarrow> css_rule \<Rightarrow> (string \<times> css_rule) list" where
  "dict_set [] k r = [(k, r)]"
| "dict_set (p # ps) k r = (if fst p = k then (k, r) # ps else p # dict_set ps k r)"

fun merge_rules :: "css_rule list \<Rightarrow> (string \<times> css_rule) list \<Rightarrow> (string \<times> css_rule) list" where
  "merge_rules [] seen_rules = seen_rules"
| "merge_rules (rule # rules) seen_rules =
     (if rtype rule = STYLE_RULE then
        (let selector = selectorText rule in
         case map_of seen_rules selector of
           Some r \<Rightarrow> merge_rules rules (dict_set seen_rules selector (r\<lparr>style := merge_style (style r) (style rule)\<rparr>))
         | None \<Rightarrow> merge_rules rules (dict_set seen_rules selector rule))
      else merge_rules rules seen_rules)"

text \<open>
  \<open>optimized_rules\<close> are the values of \<open>seen_rules\<close>, which the function adds to the emptied
  sheet. The parser and the serializer belong to cssutils and are parameters: \<open>parseString\<close>
  gives the rules of the sheet, \<open>serialize\<close> stands for refilling the sheet and reading its
  \<open>cssText\<close>, and \<open>None\<close> means that the call raised an exception.
\<close>

definition optimized_rules :: "css_rule list \<Rightarrow> css_rule list" where
  "optimized_rules sheet = map snd (merge_rules sheet [])"

definition optimize_css :: "(string \<Rightarrow> css_rule list option) \<Rightarrow> (css_rule list \<Rightarrow> string option) \<Rightarrow> string \<Rightarrow> string" where
  "optimize_css parseString serialize css_text =
     (case parseString css_text of
        None \<Rightarrow> css_text
      | Some sheet \<Rightarrow>
          (case serialize (optimized_rules sheet) of
             None \<Rightarrow> css_text
           | Some optimized \<Rightarrow> optimized))"

text \<open>
  In the words of the specification: the selectors in the order in which each was first
  seen, the style rules of a selector, and their declarations merged so that the later
  value of a property wins.
\<close>

fun first_seen :: "string list \<Rightarrow> string list \<Rightarrow> string list" where
  "first_seen [] acc = acc"
| "first_seen (x # xs) acc = (if x \<in> set acc then first_seen xs acc else first_seen xs (acc @ [x]))"

definition rules_of :: "css_rule list \<Rightarrow> string \<Rightarrow> css_rule list" where
  "rules_of sheet s = filter (\<lambda>q. rtype q = STYLE_RULE \<and> selectorText q = s) sheet"

definition last_write_wins :: "css_rule list \<Rightarrow> string \<Rightarrow> string option" where
  "last_write_wins rs = foldl (\<lambda>m q. m ++ style_get (style q)) Map.empty rs"

definition sample_sheet :: "css_rule list" where
  "sample_sheet =
     [\<lparr>rtype = STYLE_RULE, selectorText = ''.x'', style = [(''color'', ''red''), (''margin'', ''0'')], cssText = []\<rparr>,
      \<lparr>rtype = MEDIA_RULE, selectorText = [], style = [], cssText = ''@media print {.x {color: black}}''\<rparr>,
      \<lparr>rtype = COMMENT, selectorText = [], style = [], cssText = ''/* note */''\<rparr>,
      \<lparr>rtype = STYLE_RULE, selectorText = ''.y'', style = [(''top'', ''0'')], cssText = []\<rparr>,
      \<lparr>rtype = STYLE_RULE, selectorText = ''.x'', style = [(''color'', ''blue''), (''padding'', ''1px'')], cssText = []\<rparr>]"

definition sample_serialize :: "css_rule list \<Rightarrow> string option" where
  "sample_serialize rules =
     Some (concat (map (\<lambda>r. selectorText r @ ''{'' @ concat (map (\<lambda>d. fst d @ '':'' @ snd d @ '';'') (style r)) @ ''}'') rules))"

section \<open>Resource fetcher\<close>

text \<open>
  A call either returns or raises. Of the exceptions only \<open>ValueError\<close> can leave
  \<open>download_image_safe\<close>; it comes from \<open>int(...)\<close>, modelled by \<open>py_int\<close>: optional
  whitespace around, an optional sign, then decimal digits, single underscores between them
  allowed, at most 4300 digits. The whitespace \<open>int\<close> skips is TAB..CR, SPACE, NEL and NBSP;
  unlike \<open>str.strip\<close> it does not skip FS..US.
\<close>

datatype exn = ValueError

datatype 'a outcome = Returned 'a | Raised exn

definition valid_digits :: "string \<Rightarrow> bool" where
  "valid_digits u =
     (u \<noteq> [] \<and> is_digit (hd u) \<and> is_digit (last u)
      \<and> list_all (\<lambda>c. is_digit c \<or> c = CHR ''_'') u \<and> \<not> contains ''__'' u)"

definition digits_value :: "string \<Rightarrow> nat" where
  "digits_value ds = foldl (\<lambda>acc c. 10 * acc + (of_char c - 48)) 0 ds"

definition int_space :: "char \<Rightarrow> bool" where
  "int_space c = (let n = of_char c :: nat in (9 \<le> n \<and> n \<le> 13) \<or> n = 32 \<or> n = 133 \<or> n = 160)"

definition py_int :: "string \<Rightarrow> int option" where
  "py_int s =
     (let t = rev (dropWhile int_space (rev (dropWhile int_space s)));
          neg = prefix ''-'' t;
          u = (if prefix ''-'' t \<or> prefix ''+'' t then tl t else t);
          ds = filter is_digit u
      in if valid_digits u \<and> length ds \<le> 4300
         then Some (if neg then - int (digits_value ds) else int (digits_value ds))
         else None)"

text \<open>
  \<open>requests_get url\<close> is the request: \<open>None\<close> when it fails with a \<open>RequestException\<close>,
  else the response, whose body arrives as chunks; reading a chunk may fail with a
  \<open>RequestException\<close> too. Header names are matched without regard to case. With its
  result \<open>download_image_safe\<close> gives the number of chunks it asked for.
\<close>

datatype chunk = Chunk bytes | ReadError

record response =
  status_code :: nat
  headers :: "(string \<times> string) list"
  iter_content :: "chunk list"

definition headers_get :: "(string \<times> string) list \<Rightarrow> string \<Rightarrow> string option" where
  "headers_get hs key = map_of (map (\<lambda>kv. (lower (fst kv), snd kv)) hs) (lower key)"

fun read_chunks :: "chunk list \<Rightarrow> bytes \<Rightarrow> int \<Rightarrow> nat \<Rightarrow> bytes option \<times> nat" where
  "read_chunks [] content limit n = (Some content, n)"
| "read_chunks (ReadError # rest) content limit n = (None, Suc n)"
| "read_chunks (Chunk c # rest) content limit n =
     (if int (length (content @ c)) > limit then (None, Suc n)
      else read_chunks rest (content @ c) limit (Suc n))"

definition download_image_safe ::
    "int \<Rightarrow> (string \<Rightarrow> response option) \<Rightarrow> string \<Rightarrow> int option \<Rightarrow> bytes option outcome \<times> nat" where
  "download_image_safe MAX_IMAGE_SIZE_MB requests_get url max_size_mb0 =
     (let max_size_mb = (case max_size_mb0 of None \<Rightarrow> MAX_IMAGE_SIZE_MB | Some m \<Rightarrow> m) in
      case requests_get url of
        None \<Rightarrow> (Returned None, 0)
      | Some response \<Rightarrow>
          if 400 \<le> status_code response \<and> status_code response < 600 then (Returned None, 0)
          else
            (case (case headers_get (headers response) ''Content-Length'' of None \<Rightarrow> Some 0 | Some v \<Rightarrow> py_int v) of
               None \<Rightarrow> (Raised ValueError, 0)
             | Some declared_size \<Rightarrow>
                 if declared_size > max_size_mb * 1024 * 1024 then (Returned None, 0)
                 else
                   (let content_type = (case headers_get (headers response) ''Content-Type'' of None \<Rightarrow> [] | Some v \<Rightarrow> v) in
                    if \<not> prefix ''image/'' content_type then (Returned None, 0)
                    else (let (content, n) = read_chunks (iter_content response) [] (max_size_mb * 1024 * 1024) 0
                          in (Returned content, n)))))"

fun chunk_length :: "chunk \<Rightarrow> nat" where
  "chunk_length (Chunk b) = length b"
| "chunk_length ReadError = 0"

section \<open>Serializer\<close>

text \<open>
  The minified mode rewrites the serialized text with regular expressions. The first is
  \<open><!--(?!\\s*HEADER|\\s*MAIN|\\s*FOOTER).*?-->\<close> with the dot matching newlines: at a comment
  opening that is not followed, after optional whitespace, by one of the three words, the
  text up to the first \<open>-->\<close> is dropped; \<open>after_close\<close> is the text after it.
\<close>

fun after_close :: "string \<Rightarrow> string option" where
  "after_close [] = None"
| "after_close (c # cs) = (if prefix ''-->'' (c # cs) then Some (drop 3 (c # cs)) else after_close cs)"

definition begins_with_marker :: "string \<Rightarrow> bool" where
  "begins_with_marker s =
     (let r = dropWhile py_isspace s in prefix ''HEADER'' r \<or> prefix ''MAIN'' r \<or> prefix ''FOOTER'' r)"

function sub_comments :: "string \<Rightarrow> string" where
  "sub_comments [] = []"
| "sub_comments (c # cs) =
     (if prefix ''<!--'' (c # cs) \<and> \<not> begins_with_marker (drop 4 (c # cs)) then
        (case after_close (drop 4 (c # cs)) of
           Some rest \<Rightarrow> sub_comments rest
         | None \<Rightarrow> c # sub_comments cs)
      else c # sub_comments cs)"
  by pat_completeness auto
termination
proof (relation "measure length")
  show "wf (measure length)" by simp
next
  fix c :: char and cs rest :: string
  assume "after_close (drop 4 (c # cs)) = Some rest"
  moreover have "after_close s = Some r \<Longrightarrow> length r \<le> length s" for s r
    by (induction s) (auto split: if_splits)
  ultimately have "length rest \<le> length (drop 4 (c # cs))" by blast
  then show "(rest, c # cs) \<in> measure length" by simp
next
  fix c :: char and cs :: string
  show "(cs, c # cs) \<in> measure length" by simp
next
  fix c :: char and cs :: string
  show "(cs, c # cs) \<in> measure length" by simp
qed

text \<open>
  Then \<open>>\\s+<\<close> becomes \<open>><\<close>, \<open>\\s{2,}\<close> becomes one space, newlines go, the two default
  \<open>type\<close> attributes go (\<open>str.replace\<close>), and the text is stripped. Serialization itself
  (\<open>soup.prettify\<close>, \<open>soup.decode\<close>) is a parameter.
\<close>

function sub_between_tags :: "string \<Rightarrow> string" where
  "sub_between_tags [] = []"
| "sub_between_tags (c # cs) =
     (if c = CHR ''>'' \<and> takeWhile py_isspace cs \<noteq> [] \<and> prefix ''<'' (dropWhile py_isspace cs)
      then ''><'' @ sub_between_tags (tl (dropWhile py_isspace cs))
      else c # sub_between_tags cs)"
  by pat_completeness auto
termination
proof (relation "measure length")
  show "wf (measure length)" by simp
next
  fix c :: char and cs :: string
  have "length (tl (dropWhile py_isspace cs)) \<le> length cs"
    using length_dropWhile_le [of py_isspace cs] by simp
  then show "(tl (dropWhile py_isspace cs), c # cs) \<in> measure length" by simp
next
  fix c :: char and cs :: string
  show "(cs, c # cs) \<in> measure length" by simp
qed

function sub_spaces :: "string \<Rightarrow> string" where
  "sub_spaces [] = []"
| "sub_spaces (c # cs) =
     (if py_isspace c \<and> takeWhile py_isspace cs \<noteq> []
      then CHR '' '' # sub_spaces (dropWhile py_isspace cs)
      else c # sub_spaces cs)"
  by pat_completeness auto
termination
proof (relation "measure length")
  show "wf (measure length)" by simp
next
  fix c :: char and cs :: string
  have "length (dropWhile py_isspace cs) \<le> length cs"
    by (rule length_dropWhile_le)
  then show "(dropWhile py_isspace cs, c # cs) \<in> measure length" by simp
next
  fix c :: char and cs :: string
  show "(cs, c # cs) \<in> measure length" by simp
qed

function replace :: "string \<Rightarrow> string \<Rightarrow> string \<Rightarrow> string" where
  "replace old new [] = []"
| "replace old new (c # cs) =
     (if old \<noteq> [] \<and> prefix old (c # cs) then new @ replace old new (drop (length old) (c # cs))
      else c # replace old new cs)"
  by pat_completeness auto
termination
  by (relation "measure (\<lambda>(old, new, s). length s)") auto

definition beautify_html :: "(soup \<Rightarrow> string) \<Rightarrow> (soup \<Rightarrow> string) \<Rightarrow> soup \<Rightarrow> string \<Rightarrow> string" where
  "beautify_html prettify decode soup mode =
     (if mode = ''beautify'' then prettify soup
      else if mode = ''minify'' then
        (let html1 = sub_comments (decode soup);
             html2 = sub_between_tags html1;
             html3 = sub_spaces html2;
             html4 = filter (\<lambda>c. c \<noteq> CHR 0x0A) html3;
             html5 = replace ('' type='' @ dquote @ ''text/javascript'' @ dquote) [] html4;
             html6 = replace ('' type='' @ dquote @ ''text/css'' @ dquote) [] html5
         in strip html6)
      else decode soup)"

text \<open>
  A serializer for examples: the document at hand is taken to serialize as the given text.
\<close>

definition serialized_as :: "string \<Rightarrow> soup \<Rightarrow> string" where
  "serialized_as html soup = html"

section \<open>Properties of the codec utilities\<close>

lemma space_not_b64: "py_isspace c \<Longrightarrow> \<not> b64_class c"
  by (auto simp: py_isspace_def b64_class_def is_upper_def is_lower_def is_digit_def Let_def)

lemma filter_dropWhile_disjoint:
  "(\<And>c. Q c \<Longrightarrow> \<not> P c) \<Longrightarrow> filter P (dropWhile Q s) = filter P s"
  by (induction s) auto

lemma filter_strip: "filter b64_class (strip s) = filter b64_class s"
proof -
  have "filter b64_class (strip s) = rev (filter b64_class (dropWhile py_isspace (rev (dropWhile py_isspace s))))"
    by (simp add: strip_def rev_filter)
  also have "\<dots> = rev (filter b64_class (rev (dropWhile py_isspace s)))"
    by (simp add: filter_dropWhile_disjoint space_not_b64)
  also have "\<dots> = filter b64_class (dropWhile py_isspace s)"
    by (simp add: rev_filter)
  also have "\<dots> = filter b64_class s"
    by (simp add: filter_dropWhile_disjoint space_not_b64)
  finally show ?thesis .
qed

lemma safe_b64decode_cleaned:
  "safe_b64decode s = b64decode (canonical_padded (filter b64_class s))"
proof -
  let ?p = "filter b64_class s"
  have "length ?p mod 4 < 4" by simp
  then consider "length ?p mod 4 = 0" | "length ?p mod 4 = 1" | "length ?p mod 4 = 2" | "length ?p mod 4 = 3"
    by linarith
  then show ?thesis
    by cases (simp_all add: safe_b64decode_def filter_strip canonical_padded_def Let_def)
qed

lemma length_canonical_padded: "length (canonical_padded p) mod 4 = 0"
proof -
  have "length p mod 4 < 4" by simp
  then consider "length p mod 4 = 0" | "length p mod 4 = 1" | "length p mod 4 = 2" | "length p mod 4 = 3"
    by linarith
  then show ?thesis
    by cases (simp_all add: canonical_padded_def, presburger+)
qed

lemma canonical_padded_class: "list_all b64_class p \<Longrightarrow> filter b64_class (canonical_padded p) = canonical_padded p"
  by (simp add: canonical_padded_def b64_class_def list_all_iff filter_id_conv)

lemma canonical_padded_idem: "length p mod 4 = 0 \<Longrightarrow> canonical_padded p = p"
  by (simp add: canonical_padded_def)

text \<open>
  Claim C9. A payload over the character class \<open>[A-Za-z0-9+/=]\<close>, padded or not, and any
  text obtained from it by inserting characters outside that class decode alike: the noisy
  text gives what the padded canonical form of the payload gives.
\<close>

theorem safe_b64decode_ignores_noise:
  assumes "list_all b64_class payload" and "filter b64_class noisy = payload"
  shows "safe_b64decode noisy = safe_b64decode (canonical_padded payload)"
proof -
  have "safe_b64decode (canonical_padded payload)
          = b64decode (canonical_padded (canonical_padded payload))"
    using assms(1) by (simp add: safe_b64decode_cleaned canonical_padded_class)
  also have "\<dots> = b64decode (canonical_padded payload)"
    by (simp add: canonical_padded_idem length_canonical_padded)
  also have "\<dots> = safe_b64decode noisy"
    using assms(2) by (simp add: safe_b64decode_cleaned)
  finally show ?thesis by simp
qed

theorem safe_b64decode_ignores_noise_witness:
  "list_all b64_class ''QUI'' \<and> filter b64_class '' Q-U\<newline>I!'' = ''QUI''
   \<and> safe_b64decode '' Q-U\<newline>I!'' = safe_b64decode (canonical_padded ''QUI'')
   \<and> canonical_padded ''QUI'' = ''QUI=''
   \<and> safe_b64decode '' Q-U\<newline>I!'' = Some [65, 66]"
proof -
  have a: "list_all b64_class ''QUI''" by code_simp
  have b: "filter b64_class '' Q-U\<newline>I!'' = ''QUI''" by code_simp
  have c: "canonical_padded ''QUI'' = ''QUI=''" by code_simp
  have d: "safe_b64decode '' Q-U\<newline>I!'' = Some [65, 66]" by code_simp
  show ?thesis using a b c d safe_b64decode_ignores_noise [OF a b] by simp
qed

section \<open>Properties of the stylesheet's embedded images\<close>

text \<open>
  Claim C1 asks that a data URL whose payload does not decode stays as it was. The payload
  \<open>A\<close> does not decode (one data character cannot be a quad), nothing is written, and the
  reference is rewritten all the same, to a file that does not exist.
\<close>

theorem extract_css_base64_images_rewrites_undecodable:
  "safe_b64decode ''A'' = None \<and>
   extract_css_base64_images hash out_dir Map.empty ''a{background:url(data:image/png;base64,A)}''
     = (''a{background:url('' @ dquote @ ''../images/css_img_'' @ str_int (hash ''A'') @ ''.png'' @ dquote @ '')}'',
        Map.empty)"
proof -
  have "safe_b64decode ''A'' = None" by code_simp
  then show ?thesis
    by (simp add: extract_css_base64_images_def match_css_url_def match_data_url_def repl_def Let_def
        ext_char_def not_rparen_def dquote_def is_word_def is_upper_def is_lower_def is_digit_def
        save_file_def)
qed

section \<open>Properties of the semantic classifier\<close>

lemma semantic_name_table:
  "semantic_name c a = first_match keyword_table (class_text c) (id_text a)"
  by (simp add: semantic_name_def first_match_def keyword_table_def class_text_def id_text_def Let_def)

text \<open>
  Claim C8, amended. A div is renamed by the first row of the ordered keyword table one
  of whose keywords occurs in the lower-cased, space-joined class list or in the
  lower-cased id; it is renamed once, whatever later rows match too. Only the name changes:
  classes, attributes and children stay, so \<open><div class="site-header"><p>Hi</p></div>\<close>
  becomes \<open><header class="site-header"><p>Hi</p></header>\<close>. Elements other than div,
  text and comments are left as they are.
\<close>

theorem semantic_conversion_first_match:
  "semantic_name c a = first_match keyword_table (class_text c) (id_text a)
   \<and> convert_div (Element n c a ch) =
       Element (if n = ''div'' then (case first_match keyword_table (class_text c) (id_text a) of None \<Rightarrow> n | Some m \<Rightarrow> m) else n)
         c a (map convert_div ch)
   \<and> convert_div (Text s) = Text s
   \<and> convert_div (Comment s) = Comment s
   \<and> semantic_conversion [Element ''div'' (Some [''site-header'']) [] [Element ''p'' None [] [Text ''Hi'']]]
       = [Element ''header'' (Some [''site-header'']) [] [Element ''p'' None [] [Text ''Hi'']]]"
proof -
  have "semantic_name (Some [''site-header'']) [] = Some ''header''"
    by code_simp
  then show ?thesis
    by (simp add: semantic_name_table [symmetric] semantic_conversion_def)
qed

theorem semantic_conversion_first_match_witness:
  "semantic_name (Some [''footer'', ''Page-Header'']) [(''id'', ''NavMenu'')] = Some ''header''
   \<and> convert_div (Element ''div'' (Some [''footer'', ''Page-Header'']) [(''id'', ''NavMenu'')] [])
       = Element ''header'' (Some [''footer'', ''Page-Header'']) [(''id'', ''NavMenu'')] []
   \<and> convert_div (Element ''span'' (Some [''footer'']) [] []) = Element ''span'' (Some [''footer'']) [] []"
proof -
  have t: "first_match keyword_table (class_text (Some [''footer'', ''Page-Header''])) (id_text [(''id'', ''NavMenu'')]) = Some ''header''"
    by code_simp
  show ?thesis
    using semantic_conversion_first_match [of "Some [''footer'', ''Page-Header'']" "[(''id'', ''NavMenu'')]" "''div''" "[]"]
      semantic_conversion_first_match [of "Some [''footer'']" "[]" "''span''" "[]"] t
    by simp
qed

text \<open>
  The example of claim C8 as the specification writes it, a header without the class
  attribute, is not what the classifier returns.
\<close>

theorem semantic_conversion_example_counterexample:
  "semantic_conversion [Element ''div'' (Some [''site-header'']) [] [Element ''p'' None [] [Text ''Hi'']]]
     \<noteq> [Element ''header'' None [] [Element ''p'' None [] [Text ''Hi'']]]"
proof -
  have "semantic_name (Some [''site-header'']) [] = Some ''header''"
    by code_simp
  then show ?thesis
    by (simp add: semantic_conversion_def)
qed

section \<open>Properties of the DOM normalizer\<close>

lemma loop_body_here:
  "loop_body [length pre] (pre @ Some t # post)
     = (if is_empty_tag (erase t) then pre @ None # post else pre @ Some t # post)"
  by (simp add: loop_body_def)

lemma loop_body_gone: "loop_body (length pre # p) (pre @ None # post) = pre @ None # post"
  by (cases p) (simp_all add: loop_body_def)

lemma loop_body_leaf:
  "\<not> is_element (erase t) \<Longrightarrow> p \<noteq> [] \<Longrightarrow> loop_body (length pre # p) (pre @ Some t # post) = pre @ Some t # post"
  by (cases p; cases t) (simp_all add: loop_body_def)

lemma loop_body_below:
  "p \<noteq> [] \<Longrightarrow>
   loop_body (length pre # p) (pre @ Some (MElement n c a ch) # post)
     = pre @ Some (MElement n c a (loop_body p ch)) # post"
  by (cases p) (auto simp: loop_body_def split: option.splits)

lemma fold_loop_body_gone:
  "fold loop_body (map (\<lambda>p. length pre # p) ps) (pre @ None # post) = pre @ None # post"
  by (induction ps) (simp_all add: loop_body_gone)

lemma fold_loop_body_below:
  "[] \<notin> set ps \<Longrightarrow>
   fold loop_body (map (\<lambda>p. length pre # p) ps) (pre @ Some (MElement n c a ch) # post)
     = pre @ Some (MElement n c a (fold loop_body ps ch)) # post"
  by (induction ps arbitrary: ch) (auto simp: loop_body_below)

lemma tag_paths_nonempty: "[] \<notin> set (tag_paths names i ms)"
  by (induction names i ms rule: tag_paths.induct) auto

lemma loop_forest:
  assumes "\<And>n c a ch. Some (MElement n c a ch) \<in> set ms \<Longrightarrow>
             fold loop_body (tag_paths names 0 ch) ch = mprune_all names ch"
  shows "fold loop_body (tag_paths names (length pre) ms) (pre @ ms) = pre @ mprune_all names ms"
  using assms
proof (induction ms arbitrary: pre)
  case Nil
  then show ?case by (simp add: mprune_all_def)
next
  case (Cons s ms)
  have rest: "fold loop_body (tag_paths names (Suc (length pre)) ms) (pre @ s' # ms)
      = pre @ s' # mprune_all names ms" for s'
  proof -
    have "fold loop_body (tag_paths names (length (pre @ [s'])) ms) ((pre @ [s']) @ ms)
        = (pre @ [s']) @ mprune_all names ms"
    proof (rule Cons.IH)
      fix n c a ch
      assume "Some (MElement n c a ch) \<in> set ms"
      then have "Some (MElement n c a ch) \<in> set (s # ms)" by simp
      then show "fold loop_body (tag_paths names 0 ch) ch = mprune_all names ch"
        by (rule Cons.prems)
    qed
    then show ?thesis by simp
  qed
  show ?case
  proof (cases s)
    case None
    then show ?thesis using rest [of None] by (simp add: mprune_all_def)
  next
    case (Some m)
    show ?thesis
    proof (cases m)
      case (MElement n c a ch)
      have kids: "fold loop_body (tag_paths names 0 ch) ch = mprune_all names ch"
        using Cons.prems [of n c a ch] Some MElement by simp
      have below: "fold loop_body (map (\<lambda>p. length pre # p) (tag_paths names 0 ch))
            (pre @ Some (MElement n c a ch) # ms) = pre @ Some (MElement n c a (mprune_all names ch)) # ms"
        using fold_loop_body_below [OF tag_paths_nonempty] kids by simp
      show ?thesis
      proof (cases "n \<in> set names \<and> is_empty_tag (erase m)")
        case True
        then show ?thesis
          using Some MElement rest [of None] loop_body_here [of pre m ms] fold_loop_body_gone [of pre _ ms]
          by (simp add: mprune_all_def)
      next
        case False
        then show ?thesis
          using Some MElement rest [of "Some (MElement n c a (mprune_all names ch))"] below
            loop_body_here [of pre m ms]
          by (auto simp: mprune_all_def)
      qed
    next
      case (MText t)
      then show ?thesis using Some rest [of "Some m"] by (simp add: mprune_all_def)
    next
      case (MComment t)
      then show ?thesis using Some rest [of "Some m"] by (simp add: mprune_all_def)
    qed
  qed
qed

lemma loop_children:
  "m = MElement n c a ch \<Longrightarrow> fold loop_body (tag_paths names 0 ch) ch = mprune_all names ch"
proof (induction m arbitrary: n c a ch)
  case (MElement n' c' a' ch')
  have "fold loop_body (tag_paths names (length ([] :: mnode option list)) ch') ([] @ ch') = [] @ mprune_all names ch'"
  proof (rule loop_forest)
    fix n2 c2 a2 ch2
    assume "Some (MElement n2 c2 a2 ch2) \<in> set ch'"
    then show "fold loop_body (tag_paths names 0 ch2) ch2 = mprune_all names ch2"
      using MElement.IH [of "Some (MElement n2 c2 a2 ch2)" "MElement n2 c2 a2 ch2"] by simp
  qed
  with MElement.prems show ?case by simp
qed simp_all

lemma loop_is_mprune:
  "fold loop_body (tag_paths names 0 ms) ms = mprune_all names ms"
  using loop_forest [of ms names "[]"] loop_children by simp

lemma erase_embed: "erase (embed x) = x"
proof (induction x)
  case (Element n c a ch)
  then have "concat (map (\<lambda>x. [erase (embed x)]) ch) = ch"
    by (induction ch) simp_all
  then show ?case by (simp add: comp_def)
qed simp_all

lemma mprune_embed:
  "(case mprune [''div'', ''span'', ''p''] (embed x) of None \<Rightarrow> [] | Some m \<Rightarrow> [erase m]) = remove_empty_tags x"
proof (induction x)
  case (Element n c a ch)
  have e: "erase (MElement n c a (map (\<lambda>x. Some (embed x)) ch)) = Element n c a ch"
    using erase_embed [of "Element n c a ch"] by simp
  have kids: "concat (map (\<lambda>s. case s of None \<Rightarrow> [] | Some m \<Rightarrow> [erase m])
        (map (\<lambda>s. case s of None \<Rightarrow> None | Some m \<Rightarrow> mprune [''div'', ''span'', ''p''] m) (map (\<lambda>x. Some (embed x)) ch)))
      = concat (map remove_empty_tags ch)"
    using Element.IH by (induction ch) simp_all
  show ?case
  proof (cases "n \<in> set [''div'', ''span'', ''p''] \<and> is_empty_tag (Element n c a ch)")
    case True
    then have "mprune [''div'', ''span'', ''p''] (embed (Element n c a ch)) = None"
      using e by (simp del: erase.simps)
    with True show ?thesis by simp
  next
    case False
    then have "mprune [''div'', ''span'', ''p''] (embed (Element n c a ch))
        = Some (MElement n c a (map (\<lambda>s. case s of None \<Rightarrow> None | Some m \<Rightarrow> mprune [''div'', ''span'', ''p''] m)
            (map (\<lambda>x. Some (embed x)) ch)))"
      using e by (simp del: erase.simps)
    moreover have "remove_empty_tags (Element n c a ch) = [Element n c a (concat (map remove_empty_tags ch))]"
      using False by simp
    ultimately show ?thesis
      using kids by simp
  qed
qed simp_all

lemma empty_tag_loop_structural: "empty_tag_loop soup = concat (map remove_empty_tags soup)"
proof -
  have "erase_all (mprune_all [''div'', ''span'', ''p''] (map (\<lambda>x. Some (embed x)) soup))
      = concat (map remove_empty_tags soup)"
    unfolding erase_all_def mprune_all_def
    by (induction soup) (simp_all add: mprune_embed)
  then show ?thesis
    by (simp add: empty_tag_loop_def loop_is_mprune)
qed

lemma strip_empty: "strip s = [] \<longleftrightarrow> list_all py_isspace s"
proof -
  have "dropWhile py_isspace s = [] \<longleftrightarrow> list_all py_isspace s"
    by (simp add: list_all_iff)
  moreover have "strip s = [] \<longleftrightarrow> dropWhile py_isspace s = []"
  proof
    assume "strip s = []"
    then have all: "\<forall>x \<in> set (dropWhile py_isspace s). py_isspace x"
      by (simp add: strip_def)
    show "dropWhile py_isspace s = []"
    proof (cases "dropWhile py_isspace s")
      case Nil
      then show ?thesis .
    next
      case (Cons x xs)
      then have "\<not> py_isspace x" using hd_dropWhile [of py_isspace s] by simp
      with all Cons show ?thesis by simp
    qed
  next
    assume d: "dropWhile py_isspace s = []"
    show "strip s = []" unfolding strip_def d by simp
  qed
  ultimately show ?thesis by simp
qed

lemma blank_children:
  "(list_all py_isspace (concat (map text_of ch)) \<and> concat (map find_all ch) = []) \<longleftrightarrow> list_all blank_child ch"
proof (induction ch)
  case Nil
  then show ?case by simp
next
  case (Cons x ch)
  then show ?case by (cases x) auto
qed

lemma is_empty_tag_spec: "is_empty_tag tag = no_text_no_children tag"
proof (cases tag)
  case (Element n c a ch)
  have "is_empty_tag tag = (strip (text_of tag) = [] \<and> descendants_tags ch = [])"
    using Element by (simp add: is_empty_tag_def)
  also have "\<dots> = (list_all py_isspace (concat (map text_of ch)) \<and> concat (map find_all ch) = [])"
    using Element by (simp only: strip_empty descendants_tags_def text_of.simps)
  also have "\<dots> = list_all blank_child ch"
    by (rule blank_children)
  finally show ?thesis using Element by simp
qed (simp_all add: is_empty_tag_def)

lemma find_all_removed:
  "map label (concat (map find_all (remove_empty_tags x))) = map label (filter (\<lambda>e. \<not> removable e) (find_all x))"
proof (induction x)
  case (Element n c a ch)
  have kids: "map label (concat (map find_all (concat (map remove_empty_tags ch))))
      = map label (filter (\<lambda>e. \<not> removable e) (concat (map find_all ch)))"
    using Element.IH by (induction ch) auto
  show ?case
  proof (cases "removable (Element n c a ch)")
    case True
    then have "concat (map find_all ch) = []"
      by (simp add: removable_def is_empty_tag_def descendants_tags_def)
    with True show ?thesis by (simp add: removable_def)
  next
    case False
    with kids show ?thesis by (simp add: removable_def)
  qed
qed simp_all

lemma descendants_removed:
  "map label (descendants_tags (concat (map remove_empty_tags soup)))
     = map label (filter (\<lambda>e. \<not> removable e) (descendants_tags soup))"
  unfolding descendants_tags_def by (induction soup) (simp_all add: find_all_removed)

lemma keeps_parent:
  "list_ex is_element ch \<Longrightarrow> remove_empty_tags (Element n c a ch) = [Element n c a (concat (map remove_empty_tags ch))]"
proof -
  assume "list_ex is_element ch"
  then obtain x where "x \<in> set ch" "is_element x" by (auto simp: list_ex_iff)
  from \<open>is_element x\<close> have "find_all x \<noteq> []" by (cases x) simp_all
  with \<open>x \<in> set ch\<close> have "concat (map find_all ch) \<noteq> []" by (induction ch) auto
  then show ?thesis by (simp add: is_empty_tag_def descendants_tags_def)
qed

lemma twin_leaf:
  "n \<in> set [''div'', ''span'', ''p''] \<Longrightarrow> twin (Element n c a []) (Element n c' a' [])"
  by (auto simp: twin_def is_empty_tag_def descendants_tags_def strip_def)

lemma twin_wrap: "twin x x' \<Longrightarrow> twin (wrap f x) (wrap f x')"
proof -
  assume "twin x x'"
  then obtain y y' where y: "remove_comments x = [y]" "remove_comments x' = [y']" "is_element y" "is_element y'"
    "text_of y = text_of y'" "remove_empty_tags y = remove_empty_tags y'"
    by (auto simp: twin_def)
  obtain n c a l r where f: "f = Frame n c a l r" by (cases f)
  let ?l = "concat (map remove_comments l)" and ?r = "concat (map remove_comments r)"
  have ne: "descendants_tags (?l @ [y] @ ?r) \<noteq> []" "descendants_tags (?l @ [y'] @ ?r) \<noteq> []"
    using y(3,4) by (cases y; cases y'; simp add: descendants_tags_def)+
  have "remove_comments (wrap f x) = [Element n c a (?l @ [y] @ ?r)]"
    and "remove_comments (wrap f x') = [Element n c a (?l @ [y'] @ ?r)]"
    using y(1,2) f by simp_all
  moreover have "text_of (Element n c a (?l @ [y] @ ?r)) = text_of (Element n c a (?l @ [y'] @ ?r))"
    using y(5) by simp
  moreover have "remove_empty_tags (Element n c a (?l @ [y] @ ?r)) = remove_empty_tags (Element n c a (?l @ [y'] @ ?r))"
    using ne y(6) by (simp add: is_empty_tag_def)
  ultimately show ?thesis
    unfolding twin_def by fastforce
qed

lemma twin_plug: "twin x x' \<Longrightarrow> twin (plug fs x) (plug fs x')"
  by (induction fs) (simp_all add: twin_wrap)

lemma twin_clean_html:
  assumes "twin x x'"
  shows "clean_html (before @ [x] @ after) = clean_html (before @ [x'] @ after)"
proof -
  from assms obtain y y' where y: "remove_comments x = [y]" "remove_comments x' = [y']"
    "remove_empty_tags y = remove_empty_tags y'"
    by (auto simp: twin_def)
  have "concat (map remove_empty_tags (concat (map remove_comments (before @ [x] @ after))))
      = concat (map remove_empty_tags (concat (map remove_comments (before @ [x'] @ after))))"
    using y by simp
  then show ?thesis
    by (simp only: clean_html_def Let_def empty_tag_loop_structural)
qed

text \<open>
  Claim C7. The empty-tag loop of \<open>clean_html\<close> removes exactly the div, span and p
  elements that, when the loop starts, have only whitespace text and no element below them:
  the elements left are, in order, the others. It is a single pass: an element with an
  element child stays, whatever the loop does to its children. A childless div, span or p is
  removed wherever it stands and whatever attributes it carries, so the document that the
  cleaning stage hands to \<open>extract_style_tags\<close>, and what that returns, are the same as if
  the element had no \<open>style\<close> attribute at all: no class and no rule come from it.
\<close>

theorem clean_html_drops_empty_tags:
  "map label (descendants_tags (empty_tag_loop soup))
     = map label (filter (\<lambda>tag. \<not> (name_of tag \<in> set [''div'', ''span'', ''p''] \<and> no_text_no_children tag))
         (descendants_tags soup))
   \<and> (list_ex is_element ch \<longrightarrow>
        empty_tag_loop [Element n c a ch] = [Element n c a (empty_tag_loop ch)])
   \<and> (n' \<in> set [''div'', ''span'', ''p''] \<longrightarrow>
        clean_html (before @ [plug fs (Element n' c' a' [])] @ after)
          = clean_html (before @ [plug fs (Element n' None [] [])] @ after)
        \<and> extract_style_tags md5 (CleaningStage clean_head (before @ [plug fs (Element n' c' a' [])] @ after))
          = extract_style_tags md5 (CleaningStage clean_head (before @ [plug fs (Element n' None [] [])] @ after)))"
proof -
  have "n' \<in> set [''div'', ''span'', ''p''] \<Longrightarrow>
        clean_html (before @ [plug fs (Element n' c' a' [])] @ after)
          = clean_html (before @ [plug fs (Element n' None [] [])] @ after)"
    by (rule twin_clean_html, rule twin_plug, rule twin_leaf)
  then show ?thesis
    using descendants_removed [of soup] keeps_parent [of ch n c a]
    by (simp add: CleaningStage_def removable_def empty_tag_loop_structural is_empty_tag_spec)
qed

theorem clean_html_drops_empty_tags_witness:
  "list_ex is_element [Element ''span'' None [] []]
   \<and> ''p'' \<in> set [''div'', ''span'', ''p'']
   \<and> map label (descendants_tags (empty_tag_loop
         [Element ''div'' None [] [Element ''span'' None [] []], Element ''p'' None [] [Text [CHR 0xA0, CHR '' '']]]))
       = [(''div'', None, [])]
   \<and> empty_tag_loop [Element ''div'' None [] [Element ''span'' None [] []]] = [Element ''div'' None [] []]
   \<and> extract_style_tags md5_color_red
        (CleaningStage id
           [Element ''html'' None [] [Element ''body'' None [] [Element ''p'' None [(''style'', ''color:red'')] []]]])
       = ([], [Element ''html'' None [] [Element ''body'' None [] []]])"
proof -
  have h1: "list_ex is_element [Element ''span'' None [] []]" by simp
  have h2: "''p'' \<in> set [''div'', ''span'', ''p'']" by simp
  have f: "map label (filter (\<lambda>tag. \<not> (name_of tag \<in> set [''div'', ''span'', ''p''] \<and> no_text_no_children tag))
        (descendants_tags [Element ''div'' None [] [Element ''span'' None [] []], Element ''p'' None [] [Text [CHR 0xA0, CHR '' '']]]))
      = [(''div'', None, [])]"
    by code_simp
  have e: "extract_style_tags md5_color_red
        (CleaningStage id
           ([] @ [plug [Frame ''html'' None [] [] [], Frame ''body'' None [] [] []] (Element ''p'' None [] [])] @ []))
       = ([], [Element ''html'' None [] [Element ''body'' None [] []]])"
    by code_simp
  have r: "empty_tag_loop [Element ''span'' None [] []] = []"
    by code_simp
  show ?thesis
    using clean_html_drops_empty_tags [of
        "[Element ''div'' None [] [Element ''span'' None [] []], Element ''p'' None [] [Text [CHR 0xA0, CHR '' '']]]"
        "[Element ''span'' None [] []]" "''div''" None "[]" "''p''" "[]"
        "[Frame ''html'' None [] [] [], Frame ''body'' None [] [] []]" None "[(''style'', ''color:red'')]" "[]"
        md5_color_red id] h1 h2 f e r
    by simp
qed

section \<open>Properties of the style extractor\<close>











section \<open>Properties of the style optimizer\<close>

lemma style_get_Cons:
  "style_get (p # ps) x = (case style_get ps x of Some v \<Rightarrow> Some v | None \<Rightarrow> if fst p = x then Some (snd p) else None)"
  by (cases p) (simp add: style_get_def map_add_def split: option.splits)

lemma style_get_None: "style_get ps x = None \<longleftrightarrow> x \<notin> fst ` set ps"
  by (simp add: style_get_def map_of_eq_None_iff)

lemma style_get_setitem: "style_get (setitem st name v) = (style_get st)(name \<mapsto> v)"
proof (induction st)
  case Nil
  then show ?case by (simp add: style_get_def)
next
  case (Cons p ps)
  show ?case
  proof (cases "fst p = name \<and> name \<notin> fst ` set ps")
    case True
    then have "style_get ps name = None" by (simp add: style_get_None)
    with True show ?thesis
      by (auto simp: fun_eq_iff style_get_Cons split: option.splits)
  next
    case False
    then have "setitem (p # ps) name v = p # setitem ps name v" by auto
    then show ?thesis
      using Cons.IH by (auto simp: fun_eq_iff style_get_Cons split: option.splits)
  qed
qed

lemma style_get_effective: "style_get (effective st) = style_get st"
proof (induction st)
  case Nil
  then show ?case by simp
next
  case (Cons p ps)
  have keys: "fst ` set (effective ps) = fst ` set ps"
    by (induction ps) auto
  show ?case
  proof (cases "fst p \<in> fst ` set ps")
    case True
    then have "style_get ps (fst p) \<noteq> None" by (simp add: style_get_None)
    with True Cons.IH show ?thesis
      by (auto simp: fun_eq_iff style_get_Cons split: option.splits)
  next
    case False
    with Cons.IH show ?thesis
      by (auto simp: fun_eq_iff style_get_Cons split: option.splits)
  qed
qed

lemma style_get_fold_setitem:
  "style_get (fold (\<lambda>prop st. setitem st (fst prop) (snd prop)) props st) = style_get st ++ map_of (rev props)"
proof (induction props arbitrary: st)
  case Nil
  then show ?case by simp
next
  case (Cons p props)
  have "style_get (fold (\<lambda>prop st. setitem st (fst prop) (snd prop)) (p # props) st)
      = style_get (setitem st (fst p) (snd p)) ++ map_of (rev props)"
    using Cons.IH [of "setitem st (fst p) (snd p)"] by simp
  also have "\<dots> = (style_get st)(fst p \<mapsto> snd p) ++ map_of (rev props)"
    by (simp only: style_get_setitem)
  also have "\<dots> = style_get st ++ map_of (rev (p # props))"
    by (cases p) (auto simp: fun_eq_iff map_add_def split: option.splits)
  finally show ?case .
qed

lemma style_get_merge_style:
  "style_get (merge_style seen_style rule_style) = style_get seen_style ++ style_get rule_style"
proof -
  have "style_get (merge_style seen_style rule_style) = style_get seen_style ++ map_of (rev (effective rule_style))"
    by (simp only: merge_style_def style_get_fold_setitem)
  also have "map_of (rev (effective rule_style)) = style_get (effective rule_style)"
    by (simp add: fun_eq_iff style_get_def)
  finally show ?thesis by (simp only: style_get_effective)
qed

lemma dict_set_keys:
  "map fst (dict_set seen k r) = (if k \<in> set (map fst seen) then map fst seen else map fst seen @ [k])"
  by (induction seen) auto

lemma dict_set_map_of: "map_of (dict_set seen k r) = (map_of seen)(k \<mapsto> r)"
  by (induction seen) (auto simp: fun_eq_iff)

lemma dict_set_set: "set (dict_set seen k r) \<subseteq> insert (k, r) (set seen)"
  by (induction seen) auto

lemma map_of_Some_key: "map_of seen k = Some r \<Longrightarrow> k \<in> set (map fst seen)"
  by (auto dest: map_of_SomeD intro: rev_image_eqI)

lemma map_of_None_key: "map_of seen k = None \<Longrightarrow> k \<notin> set (map fst seen)"
  by (simp add: map_of_eq_None_iff)

lemma merge_rules_keys:
  "map fst (merge_rules rules seen)
     = first_seen (map selectorText (filter (\<lambda>q. rtype q = STYLE_RULE) rules)) (map fst seen)"
proof (induction rules arbitrary: seen)
  case Nil
  then show ?case by simp
next
  case (Cons rule rules)
  show ?case
  proof (cases "rtype rule = STYLE_RULE")
    case False
    then show ?thesis using Cons.IH by simp
  next
    case True
    show ?thesis
    proof (cases "map_of seen (selectorText rule)")
      case None
      then have "selectorText rule \<notin> set (map fst seen)" by (rule map_of_None_key)
      then show ?thesis using True None Cons.IH [of "dict_set seen (selectorText rule) rule"]
        by (simp add: dict_set_keys)
    next
      case (Some r)
      then have "selectorText rule \<in> set (map fst seen)" by (rule map_of_Some_key)
      then show ?thesis
        using True Some Cons.IH [of "dict_set seen (selectorText rule) (r\<lparr>style := merge_style (style r) (style rule)\<rparr>)"]
        by (simp add: dict_set_keys)
    qed
  qed
qed

lemma first_seen_distinct: "distinct acc \<Longrightarrow> distinct (first_seen xs acc)"
  by (induction xs arbitrary: acc) auto

lemma merge_rules_wf:
  "list_all (\<lambda>p. selectorText (snd p) = fst p \<and> rtype (snd p) = STYLE_RULE) seen \<Longrightarrow>
   list_all (\<lambda>p. selectorText (snd p) = fst p \<and> rtype (snd p) = STYLE_RULE) (merge_rules rules seen)"
proof (induction rules arbitrary: seen)
  case Nil
  then show ?case by simp
next
  case (Cons rule rules)
  let ?ok = "\<lambda>p. selectorText (snd p) = fst p \<and> rtype (snd p) = STYLE_RULE"
  show ?case
  proof (cases "rtype rule = STYLE_RULE")
    case False
    then show ?thesis using Cons by simp
  next
    case True
    show ?thesis
    proof (cases "map_of seen (selectorText rule)")
      case None
      have "list_all ?ok (dict_set seen (selectorText rule) rule)"
        using dict_set_set [of seen "selectorText rule" rule] Cons.prems True
        by (auto simp: list_all_iff)
      then show ?thesis using True None Cons.IH by simp
    next
      case (Some r)
      let ?r' = "r\<lparr>style := merge_style (style r) (style rule)\<rparr>"
      have "(selectorText rule, r) \<in> set seen" using Some by (rule map_of_SomeD)
      then have "rtype r = STYLE_RULE" "selectorText r = selectorText rule"
        using Cons.prems by (auto simp: list_all_iff)
      then have "list_all ?ok (dict_set seen (selectorText rule) ?r')"
        using dict_set_set [of seen "selectorText rule" ?r'] Cons.prems
        by (auto simp: list_all_iff)
      then show ?thesis using True Some Cons.IH by simp
    qed
  qed
qed

lemma rules_of_Nil: "rules_of [] s = []"
  by (simp add: rules_of_def)

lemma rules_of_Cons:
  "rules_of (rule # rules) s
     = (if rtype rule = STYLE_RULE \<and> selectorText rule = s then rule # rules_of rules s else rules_of rules s)"
  by (simp add: rules_of_def)

lemma merge_rules_lookup:
  "map_option (\<lambda>r. style_get (style r)) (map_of (merge_rules rules seen) s)
     = (case map_of seen s of
          Some r0 \<Rightarrow> Some (foldl (\<lambda>m q. m ++ style_get (style q)) (style_get (style r0)) (rules_of rules s))
        | None \<Rightarrow> if rules_of rules s = [] then None
                   else Some (foldl (\<lambda>m q. m ++ style_get (style q)) Map.empty (rules_of rules s)))"
proof (induction rules arbitrary: seen)
  case Nil
  then show ?case by (simp add: rules_of_Nil split: option.splits)
next
  case (Cons rule rules)
  show ?case
  proof (cases "rtype rule = STYLE_RULE")
    case False
    then show ?thesis using Cons.IH [of seen] by (simp add: rules_of_Cons split: option.splits)
  next
    case True
    show ?thesis
    proof (cases "map_of seen (selectorText rule)")
      case None
      show ?thesis
        using True None Cons.IH [of "dict_set seen (selectorText rule) rule"]
        by (cases "selectorText rule = s") (simp_all add: dict_set_map_of rules_of_Cons split: option.splits)
    next
      case (Some r)
      show ?thesis
        using True Some Cons.IH [of "dict_set seen (selectorText rule) (r\<lparr>style := merge_style (style r) (style rule)\<rparr>)"]
        by (cases "selectorText rule = s") (simp_all add: dict_set_map_of rules_of_Cons style_get_merge_style split: option.splits)
    qed
  qed
qed

lemma optimized_rules_selectors:
  "map selectorText (optimized_rules sheet) = first_seen (map selectorText (filter (\<lambda>q. rtype q = STYLE_RULE) sheet)) []"
proof -
  have wf: "list_all (\<lambda>p. selectorText (snd p) = fst p \<and> rtype (snd p) = STYLE_RULE) (merge_rules sheet [])"
    by (rule merge_rules_wf) simp
  then have "map selectorText (optimized_rules sheet) = map fst (merge_rules sheet [])"
    by (simp add: optimized_rules_def list_all_iff)
  then show ?thesis by (simp add: merge_rules_keys)
qed

lemma optimized_rules_style:
  assumes "r \<in> set (optimized_rules sheet)"
  shows "rtype r = STYLE_RULE"
    and "style_get (style r) = last_write_wins (rules_of sheet (selectorText r))"
proof -
  have wf: "list_all (\<lambda>p. selectorText (snd p) = fst p \<and> rtype (snd p) = STYLE_RULE) (merge_rules sheet [])"
    by (rule merge_rules_wf) simp
  from assms obtain k where k: "(k, r) \<in> set (merge_rules sheet [])"
    by (auto simp: optimized_rules_def)
  with wf have kr: "k = selectorText r" "rtype r = STYLE_RULE"
    by (auto simp: list_all_iff)
  show "rtype r = STYLE_RULE" by fact
  have "distinct (map fst (merge_rules sheet []))"
    by (simp add: merge_rules_keys first_seen_distinct)
  with k have "map_of (merge_rules sheet []) k = Some r" by simp
  then have "Some (style_get (style r))
      = (if rules_of sheet k = [] then None else Some (last_write_wins (rules_of sheet k)))"
    using merge_rules_lookup [of sheet "[]" k] by (simp add: last_write_wins_def fun_eq_iff)
  then show "style_get (style r) = last_write_wins (rules_of sheet (selectorText r))"
    using kr by (simp split: if_splits)
qed

lemma last_write_wins_snoc: "last_write_wins (rs @ [q]) = last_write_wins rs ++ style_get (style q)"
  by (simp add: last_write_wins_def)

text \<open>
  Claim C5. When the sheet parses and is serialized, \<open>optimize_css\<close> returns the
  serialization of \<open>optimized_rules\<close>. Their selectors are those of the style rules of the
  input in the order each was first seen, each once. The declarations of the rule kept for a
  selector are those of all the input rules with this selector, merged in order: a later
  value overwrites an earlier one of the same property, and a property declared in one rule
  only is kept.
\<close>

theorem optimize_css_merges_selectors:
  assumes "parseString css_text = Some sheet" and "serialize (optimized_rules sheet) = Some optimized"
  shows "optimize_css parseString serialize css_text = optimized
    \<and> map selectorText (optimized_rules sheet)
        = first_seen (map selectorText (filter (\<lambda>q. rtype q = STYLE_RULE) sheet)) []
    \<and> distinct (map selectorText (optimized_rules sheet))
    \<and> (\<forall>r \<in> set (optimized_rules sheet). style_get (style r) = last_write_wins (rules_of sheet (selectorText r)))
    \<and> last_write_wins [] = Map.empty
    \<and> last_write_wins (rs @ [q]) = last_write_wins rs ++ style_get (style q)"
proof -
  have "optimize_css parseString serialize css_text = optimized"
    using assms by (simp add: optimize_css_def)
  moreover have "distinct (map selectorText (optimized_rules sheet))"
    by (simp add: optimized_rules_selectors first_seen_distinct)
  moreover have "\<forall>r \<in> set (optimized_rules sheet). style_get (style r) = last_write_wins (rules_of sheet (selectorText r))"
    by (simp add: optimized_rules_style)
  moreover have "last_write_wins [] = Map.empty"
    by (simp add: last_write_wins_def)
  ultimately show ?thesis
    by (simp add: optimized_rules_selectors last_write_wins_snoc)
qed

theorem optimize_css_merges_selectors_witness:
  "optimize_css (\<lambda>s. Some sample_sheet) sample_serialize ''.x{color:red;margin:0} @media print{.x{color:black}} /* note */ .y{top:0} .x{color:blue;padding:1px}''
     = ''.x{color:blue;margin:0;padding:1px;}.y{top:0;}''
   \<and> map selectorText (optimized_rules sample_sheet) = [''.x'', ''.y'']
   \<and> distinct (map selectorText (optimized_rules sample_sheet))
   \<and> style_get (style (hd (optimized_rules sample_sheet))) ''color'' = Some ''blue''
   \<and> style_get (style (hd (optimized_rules sample_sheet))) ''margin'' = Some ''0''
   \<and> style_get (style (hd (optimized_rules sample_sheet))) ''padding'' = Some ''1px''"
proof -
  have o: "optimized_rules sample_sheet =
     [\<lparr>rtype = STYLE_RULE, selectorText = ''.x'', style = [(''color'', ''blue''), (''margin'', ''0''), (''padding'', ''1px'')], cssText = []\<rparr>,
      \<lparr>rtype = STYLE_RULE, selectorText = ''.y'', style = [(''top'', ''0'')], cssText = []\<rparr>]"
    by code_simp
  have s: "sample_serialize (optimized_rules sample_sheet) = Some ''.x{color:blue;margin:0;padding:1px;}.y{top:0;}''"
    unfolding o by code_simp
  have f: "first_seen (map selectorText (filter (\<lambda>q. rtype q = STYLE_RULE) sample_sheet)) [] = [''.x'', ''.y'']"
    by code_simp
  have h: "hd (optimized_rules sample_sheet) \<in> set (optimized_rules sample_sheet)"
    unfolding o by simp
  have g: "style_get (style (hd (optimized_rules sample_sheet))) ''color'' = Some ''blue''"
    "style_get (style (hd (optimized_rules sample_sheet))) ''margin'' = Some ''0''"
    "style_get (style (hd (optimized_rules sample_sheet))) ''padding'' = Some ''1px''"
    unfolding o by (simp_all add: style_get_def)
  show ?thesis
    using optimize_css_merges_selectors [of "\<lambda>s. Some sample_sheet" _ sample_sheet sample_serialize, OF refl s] f g
    by simp
qed

text \<open>
  Claim C10. When the sheet parses and is serialized, what \<open>optimize_css\<close> returns is the
  serialization of style rules only: no rule of another type of the input, at-rule or
  comment, is among them.
\<close>

theorem optimize_css_keeps_style_rules_only:
  assumes "parseString css_text = Some sheet" and "serialize (optimized_rules sheet) = Some optimized"
  shows "optimize_css parseString serialize css_text = optimized
    \<and> list_all (\<lambda>r. rtype r = STYLE_RULE) (optimized_rules sheet)
    \<and> (\<forall>q \<in> set sheet. rtype q \<noteq> STYLE_RULE \<longrightarrow> q \<notin> set (optimized_rules sheet))"
proof -
  have "optimize_css parseString serialize css_text = optimized"
    using assms by (simp add: optimize_css_def)
  moreover have a: "list_all (\<lambda>r. rtype r = STYLE_RULE) (optimized_rules sheet)"
    by (simp add: list_all_iff optimized_rules_style)
  moreover have "\<forall>q \<in> set sheet. rtype q \<noteq> STYLE_RULE \<longrightarrow> q \<notin> set (optimized_rules sheet)"
    using a by (auto simp: list_all_iff)
  ultimately show ?thesis by simp
qed

theorem optimize_css_keeps_style_rules_only_witness:
  "optimize_css (\<lambda>s. Some sample_sheet) sample_serialize ''.x{color:red;margin:0} @media print{.x{color:black}} /* note */ .y{top:0} .x{color:blue;padding:1px}''
     = ''.x{color:blue;margin:0;padding:1px;}.y{top:0;}''
   \<and> \<lparr>rtype = MEDIA_RULE, selectorText = [], style = [], cssText = ''@media print {.x {color: black}}''\<rparr> \<in> set sample_sheet
   \<and> \<lparr>rtype = MEDIA_RULE, selectorText = [], style = [], cssText = ''@media print {.x {color: black}}''\<rparr> \<notin> set (optimized_rules sample_sheet)
   \<and> list_all (\<lambda>r. rtype r = STYLE_RULE) (optimized_rules sample_sheet)"
proof -
  have s: "sample_serialize (optimized_rules sample_sheet) = Some ''.x{color:blue;margin:0;padding:1px;}.y{top:0;}''"
    by code_simp
  have m: "\<lparr>rtype = MEDIA_RULE, selectorText = [], style = [], cssText = ''@media print {.x {color: black}}''\<rparr> \<in> set sample_sheet"
    by (simp add: sample_sheet_def)
  show ?thesis
    using optimize_css_keeps_style_rules_only [of "\<lambda>s. Some sample_sheet" _ sample_sheet sample_serialize, OF refl s] m
    by auto
qed

text \<open>
  Claim C6. If parsing raises, or if a later step does, \<open>optimize_css\<close> returns the text it
  was given. It is a total function: it returns a text in every case.
\<close>

theorem optimize_css_returns_original_on_failure:
  "(parseString css_text = None \<longrightarrow> optimize_css parseString serialize css_text = css_text)
   \<and> (parseString css_text = Some sheet \<and> serialize (optimized_rules sheet) = None
        \<longrightarrow> optimize_css parseString serialize css_text = css_text)"
  by (simp add: optimize_css_def)

theorem optimize_css_returns_original_on_failure_witness:
  "optimize_css (\<lambda>s. None) sample_serialize ''.x{color:red'' = ''.x{color:red''
   \<and> optimize_css (\<lambda>s. Some sample_sheet) (\<lambda>rules. None) ''.x{color:red}'' = ''.x{color:red}''"
  using optimize_css_returns_original_on_failure [of "\<lambda>s. None" "''.x{color:red''" sample_serialize]
    optimize_css_returns_original_on_failure [of "\<lambda>s. Some sample_sheet" "''.x{color:red}''" "\<lambda>rules. None" sample_sheet]
  by simp

section \<open>Properties of the resource fetcher\<close>

lemma read_chunks_over:
  "int (length content + sum_list (map chunk_length chunks)) > limit
   \<Longrightarrow> int (length content) \<le> limit \<Longrightarrow> fst (read_chunks chunks content limit n) = None"
proof (induction chunks content limit n rule: read_chunks.induct)
  case (1 content limit n)
  then show ?case by simp
next
  case (2 rest content limit n)
  then show ?case by simp
next
  case (3 c rest content limit n)
  show ?case
  proof (cases "int (length (content @ c)) > limit")
    case True
    then show ?thesis by simp
  next
    case False
    have "limit < int (length (content @ c) + sum_list (map chunk_length rest))"
      using "3.prems"(1) by (simp add: add.assoc)
    with False "3.IH" have "fst (read_chunks rest (content @ c) limit (Suc n)) = None"
      by simp
    with False show ?thesis by simp
  qed
qed

text \<open>
  With a Content-Length header that is absent or an integer, each rejection returns no
  content: a failed request, an error status, a declared length over the budget and a
  content type that is not an image, all before any chunk is read, and a body longer than
  the budget.
\<close>

lemma download_image_safe_rejections:
  assumes "max_size_mb = (case max_size_mb0 of None \<Rightarrow> MAX_IMAGE_SIZE_MB | Some m \<Rightarrow> m)"
  shows "requests_get url = None \<Longrightarrow>
           download_image_safe MAX_IMAGE_SIZE_MB requests_get url max_size_mb0 = (Returned None, 0)"
    and "requests_get url = Some r \<Longrightarrow> 400 \<le> status_code r \<Longrightarrow> status_code r < 600 \<Longrightarrow>
           download_image_safe MAX_IMAGE_SIZE_MB requests_get url max_size_mb0 = (Returned None, 0)"
    and "requests_get url = Some r \<Longrightarrow>
         (case headers_get (headers r) ''Content-Length'' of None \<Rightarrow> Some 0 | Some v \<Rightarrow> py_int v) = Some declared \<Longrightarrow>
         declared > max_size_mb * 1024 * 1024 \<Longrightarrow>
           download_image_safe MAX_IMAGE_SIZE_MB requests_get url max_size_mb0 = (Returned None, 0)"
    and "requests_get url = Some r \<Longrightarrow>
         (case headers_get (headers r) ''Content-Length'' of None \<Rightarrow> Some 0 | Some v \<Rightarrow> py_int v) = Some declared \<Longrightarrow>
         \<not> prefix ''image/'' (case headers_get (headers r) ''Content-Type'' of None \<Rightarrow> [] | Some v \<Rightarrow> v) \<Longrightarrow>
           download_image_safe MAX_IMAGE_SIZE_MB requests_get url max_size_mb0 = (Returned None, 0)"
    and "requests_get url = Some r \<Longrightarrow>
         (case headers_get (headers r) ''Content-Length'' of None \<Rightarrow> Some 0 | Some v \<Rightarrow> py_int v) = Some declared \<Longrightarrow>
         0 \<le> max_size_mb \<Longrightarrow>
         int (sum_list (map chunk_length (iter_content r))) > max_size_mb * 1024 * 1024 \<Longrightarrow>
           fst (download_image_safe MAX_IMAGE_SIZE_MB requests_get url max_size_mb0) = Returned None"
proof -
  show "requests_get url = None \<Longrightarrow>
           download_image_safe MAX_IMAGE_SIZE_MB requests_get url max_size_mb0 = (Returned None, 0)"
    by (simp add: download_image_safe_def)
  show "requests_get url = Some r \<Longrightarrow> 400 \<le> status_code r \<Longrightarrow> status_code r < 600 \<Longrightarrow>
           download_image_safe MAX_IMAGE_SIZE_MB requests_get url max_size_mb0 = (Returned None, 0)"
    by (simp add: download_image_safe_def)
  show "requests_get url = Some r \<Longrightarrow>
         (case headers_get (headers r) ''Content-Length'' of None \<Rightarrow> Some 0 | Some v \<Rightarrow> py_int v) = Some declared \<Longrightarrow>
         declared > max_size_mb * 1024 * 1024 \<Longrightarrow>
           download_image_safe MAX_IMAGE_SIZE_MB requests_get url max_size_mb0 = (Returned None, 0)"
    using assms by (simp add: download_image_safe_def Let_def)
  show "requests_get url = Some r \<Longrightarrow>
         (case headers_get (headers r) ''Content-Length'' of None \<Rightarrow> Some 0 | Some v \<Rightarrow> py_int v) = Some declared \<Longrightarrow>
         \<not> prefix ''image/'' (case headers_get (headers r) ''Content-Type'' of None \<Rightarrow> [] | Some v \<Rightarrow> v) \<Longrightarrow>
           download_image_safe MAX_IMAGE_SIZE_MB requests_get url max_size_mb0 = (Returned None, 0)"
    using assms by (simp add: download_image_safe_def Let_def)
  show "fst (download_image_safe MAX_IMAGE_SIZE_MB requests_get url max_size_mb0) = Returned None"
    if a: "requests_get url = Some r"
      "(case headers_get (headers r) ''Content-Length'' of None \<Rightarrow> Some 0 | Some v \<Rightarrow> py_int v) = Some declared"
      "0 \<le> max_size_mb"
      "int (sum_list (map chunk_length (iter_content r))) > max_size_mb * 1024 * 1024"
  proof -
    have "fst (read_chunks (iter_content r) [] (max_size_mb * 1024 * 1024) 0) = None"
      using a(3,4) by (intro read_chunks_over) simp_all
    then show ?thesis
      using a(1,2) assms by (auto simp: download_image_safe_def Let_def split: prod.splits)
  qed
qed

text \<open>
  Claim C3 asks that a response whose content type is not an image is rejected by returning
  no content. When its Content-Length header is not an integer, \<open>int\<close> raises
  \<open>ValueError\<close> before the content type is looked at, and nothing catches it.
\<close>

theorem download_image_safe_raises_on_bad_length:
  "download_image_safe MAX_IMAGE_SIZE_MB
     (\<lambda>u. Some \<lparr>status_code = 200,
                 headers = [(''Content-Length'', ''abc''), (''Content-Type'', ''text/html'')],
                 iter_content = body\<rparr>)
     url max_size_mb
   = (Raised ValueError, 0)"
proof -
  have "headers_get [(''Content-Length'', ''abc''), (''Content-Type'', ''text/html'')] ''Content-Length'' = Some ''abc''"
    by code_simp
  moreover have "py_int ''abc'' = None"
    by code_simp
  ultimately show ?thesis
    by (simp add: download_image_safe_def)
qed

section \<open>Properties of the serializer\<close>

text \<open>
  What the comment pass does to one comment, as the parser delivers it: dropped unless its
  text begins, after optional whitespace, with HEADER, MAIN or FOOTER.
\<close>

lemma after_close_skip:
  assumes "\<not> prefix ''-->'' (x # xs)"
  shows "after_close (x # xs) = after_close xs"
  using assms by (simp only: after_close.simps if_False)

lemma sub_comments_skip:
  assumes "\<not> prefix ''<!--'' (x # xs)"
  shows "sub_comments (x # xs) = x # sub_comments xs"
  using assms by (simp only: sub_comments.simps simp_thms if_False)

lemma sub_comments_open_kept:
  "begins_with_marker t \<Longrightarrow> sub_comments (''<!--'' @ t) = ''<!--'' @ sub_comments t"
  by simp

lemma sub_comments_open_removed:
  "\<not> begins_with_marker t \<Longrightarrow> after_close t = Some rest \<Longrightarrow> sub_comments (''<!--'' @ t) = sub_comments rest"
  by simp

lemma after_close_end:
  "\<not> contains ''-->'' (c @ ''--'') \<Longrightarrow> after_close (c @ ''-->'' @ rest) = Some rest"
proof (induction c)
  case Nil
  then show ?case by simp
next
  case (Cons x xs)
  from Cons.prems have np: "\<not> prefix ''-->'' (x # xs @ ''--'')" and nc: "\<not> contains ''-->'' (xs @ ''--'')"
    by simp_all
  have "\<not> prefix ''-->'' (x # xs @ ''-->'' @ rest)"
  proof (cases xs)
    case Nil
    then show ?thesis by simp
  next
    case (Cons y ys)
    then show ?thesis using np by (cases ys) auto
  qed
  then have "after_close (x # xs @ ''-->'' @ rest) = after_close (xs @ ''-->'' @ rest)"
    by (rule after_close_skip)
  with Cons.IH [OF nc] show ?case by (simp only: append_Cons)
qed

lemma prefix_before_dash:
  "CHR ''-'' \<notin> set m \<Longrightarrow> prefix m (d @ CHR ''-'' # t) = prefix m d"
proof (induction m arbitrary: d)
  case Nil
  then show ?case by simp
next
  case (Cons a m)
  then show ?case by (cases d) auto
qed

lemma prefix_before_close:
  "CHR ''-'' \<notin> set m \<Longrightarrow> prefix m (d @ ''-->'' @ rest) = prefix m d"
  using prefix_before_dash [of m d "''->'' @ rest"] by simp

lemma begins_with_marker_comment:
  "begins_with_marker (c @ ''-->'' @ rest) = begins_with_marker c"
proof (cases "\<forall>x \<in> set c. py_isspace x")
  case True
  have d1: "dropWhile py_isspace c = []" using True by simp
  have "\<not> py_isspace CHR ''-''" by (simp add: py_isspace_def)
  then have d2: "dropWhile py_isspace (c @ ''-->'' @ rest) = ''-->'' @ rest"
    using True by (simp add: dropWhile_append)
  show ?thesis unfolding begins_with_marker_def Let_def d1 d2 by simp
next
  case False
  then obtain x where "x \<in> set c" "\<not> py_isspace x" by blast
  then have d: "dropWhile py_isspace (c @ ''-->'' @ rest) = dropWhile py_isspace c @ ''-->'' @ rest"
    by (rule dropWhile_append1)
  have m: "CHR ''-'' \<notin> set ''HEADER''" "CHR ''-'' \<notin> set ''MAIN''" "CHR ''-'' \<notin> set ''FOOTER''"
    by simp_all
  show ?thesis unfolding begins_with_marker_def Let_def d
    by (simp only: prefix_before_close [OF m(1)] prefix_before_close [OF m(2)] prefix_before_close [OF m(3)])
qed

lemma sub_comments_plain:
  "\<not> contains ''<!--'' (c @ ''--'') \<Longrightarrow> sub_comments (c @ ''-->'' @ rest) = c @ ''-->'' @ sub_comments rest"
proof (induction c)
  case Nil
  then show ?case by simp
next
  case (Cons x xs)
  from Cons.prems have np: "\<not> prefix ''<!--'' (x # xs @ ''--'')" and nc: "\<not> contains ''<!--'' (xs @ ''--'')"
    by simp_all
  have "\<not> prefix ''<!--'' (x # xs @ ''-->'' @ rest)"
  proof (cases xs)
    case Nil
    then show ?thesis by simp
  next
    case (Cons y ys)
    then show ?thesis using np by (cases ys; cases "tl ys") auto
  qed
  then have "sub_comments (x # xs @ ''-->'' @ rest) = x # sub_comments (xs @ ''-->'' @ rest)"
    by (rule sub_comments_skip)
  with Cons.IH [OF nc] show ?case by (simp only: append_Cons)
qed

lemma sub_comments_kept:
  assumes "begins_with_marker c" and "\<not> contains ''<!--'' (c @ ''--'')"
  shows "sub_comments (''<!--'' @ c @ ''-->'' @ rest) = ''<!--'' @ c @ ''-->'' @ sub_comments rest"
proof -
  have "begins_with_marker (c @ ''-->'' @ rest)"
    using assms(1) by (simp only: begins_with_marker_comment)
  then have "sub_comments (''<!--'' @ c @ ''-->'' @ rest) = ''<!--'' @ sub_comments (c @ ''-->'' @ rest)"
    by (rule sub_comments_open_kept)
  then show ?thesis
    by (simp only: sub_comments_plain [OF assms(2)])
qed

lemma sub_comments_removed:
  assumes "\<not> begins_with_marker c" and "\<not> contains ''-->'' (c @ ''--'')"
  shows "sub_comments (''<!--'' @ c @ ''-->'' @ rest) = sub_comments rest"
proof -
  have "\<not> begins_with_marker (c @ ''-->'' @ rest)"
    using assms(1) by (simp only: begins_with_marker_comment not_False_eq_True)
  then show ?thesis
    using after_close_end [OF assms(2)] by (rule sub_comments_open_removed)
qed

lemma prefix_contains: "prefix n s \<Longrightarrow> contains n s"
  by (cases s) auto

lemma contains_append_left: "contains n t \<Longrightarrow> contains n (s @ t)"
  by (induction s) (auto simp: prefix_contains)

lemma begins_with_marker_structural: "begins_with_marker c \<Longrightarrow> is_structural c"
proof -
  assume b: "begins_with_marker c"
  have c: "c = takeWhile py_isspace c @ dropWhile py_isspace c" by simp
  have "prefix m (dropWhile py_isspace c) \<Longrightarrow> contains m c" for m
    using contains_append_left [OF prefix_contains, of m "dropWhile py_isspace c" "takeWhile py_isspace c"]
    by simp
  with b show ?thesis
    by (auto simp: begins_with_marker_def is_structural_def structural_markers_def Let_def)
qed

text \<open>
  Claim C2 asks that minification keeps a comment exactly when its text contains one of the
  structural markers, as the normalizer does. The normalizer keeps the comments
  \<open>SECTION\<close> and \<open>begin MAIN\<close> as structural, and the minified mode removes both: its
  pattern has no SECTION, and looks for HEADER, MAIN and FOOTER only at the start of the
  comment. A comment that begins with HEADER stays.
\<close>

theorem minify_drops_structural_comments:
  "is_structural '' SECTION ''
   \<and> clean_html [Element ''p'' None [] [Text ''a''], Comment '' SECTION '', Element ''p'' None [] [Text ''b'']]
        = [Element ''p'' None [] [Text ''a''], Comment '' SECTION '', Element ''p'' None [] [Text ''b'']]
   \<and> beautify_html (serialized_as []) (serialized_as ''<p>a</p><!-- SECTION --><p>b</p>'')
        [Element ''p'' None [] [Text ''a''], Comment '' SECTION '', Element ''p'' None [] [Text ''b'']] ''minify''
        = ''<p>a</p><p>b</p>''
   \<and> is_structural '' begin MAIN ''
   \<and> sub_comments ''<!-- begin MAIN -->'' = []
   \<and> sub_comments ''<!-- HEADER -->'' = ''<!-- HEADER -->''"
  by code_simp

end
